theory Spec2Isabelle
  imports Main "HOL-Library.Word"
begin

section \<open>Errors\<close>

text \<open>
  What the hook's code can throw: the parser's \<open>frameInfo\<close> for an index that is not a
  frame's, a \<open>TypeError\<close> for a property read of \<open>undefined\<close>, and the two exceptions the
  canvas raises for a rectangle or a source canvas of width or height zero.
\<close>

datatype js_error = FrameIndexOutOfRange | TypeError | IndexSizeError | InvalidStateError

definition js_bind :: "js_error + 'a \<Rightarrow> ('a \<Rightarrow> js_error + 'b) \<Rightarrow> js_error + 'b" where
  "js_bind r f = (case r of Inl e \<Rightarrow> Inl e | Inr v \<Rightarrow> f v)"

section \<open>Rasters and the 2D canvas operations used by the hook\<close>

text \<open>
  A pixel is four bytes, as an \<open>ImageData\<close> stores it. An image is its width, its height
  and the pixels row by row. The 2D context of a canvas is modelled by the image it holds.
  Reading outside an image gives transparent black, as \<open>getImageData\<close> does.
\<close>

datatype rgba = RGBA (red: "8 word") (green: "8 word") (blue: "8 word") (alpha: "8 word")

definition transparent :: rgba where
  "transparent = RGBA 0 0 0 0"

record image =
  iwidth :: nat
  iheight :: nat
  idata :: "rgba list"

definition mk_image :: "nat \<Rightarrow> nat \<Rightarrow> (nat \<Rightarrow> nat \<Rightarrow> rgba) \<Rightarrow> image" where
  "mk_image w h f =
     \<lparr>iwidth = w, iheight = h, idata = map (\<lambda>k. f (k mod w) (k div w)) [0..<w * h]\<rparr>"

definition pixel :: "image \<Rightarrow> nat \<Rightarrow> nat \<Rightarrow> rgba" where
  "pixel img px py =
     (if px < iwidth img \<and> py < iheight img \<and> py * iwidth img + px < length (idata img)
      then idata img ! (py * iwidth img + px)
      else transparent)"

text \<open>\<open>document.createElement("canvas")\<close> with its size set: all pixels transparent
  black. A canvas may have width or height zero.\<close>

definition createCanvas :: "nat \<Rightarrow> nat \<Rightarrow> image" where
  "createCanvas w h = mk_image w h (\<lambda>_ _. transparent)"

text \<open>\<open>ctx.createImageData(w, h)\<close>: all pixels transparent black; an \<open>IndexSizeError\<close> when
  an argument is zero.\<close>

definition createImageData :: "nat \<Rightarrow> nat \<Rightarrow> js_error + image" where
  "createImageData w h =
     (if w = 0 \<or> h = 0 then Inl IndexSizeError else Inr (mk_image w h (\<lambda>_ _. transparent)))"

text \<open>\<open>ctx.getImageData(sx, sy, sw, sh)\<close>: a copy of the rectangle; an \<open>IndexSizeError\<close>
  when \<open>sw\<close> or \<open>sh\<close> is zero.\<close>

definition region :: "image \<Rightarrow> nat \<Rightarrow> nat \<Rightarrow> nat \<Rightarrow> nat \<Rightarrow> image" where
  "region canvas sx sy sw sh = mk_image sw sh (\<lambda>px py. pixel canvas (sx + px) (sy + py))"

definition getImageData :: "image \<Rightarrow> nat \<Rightarrow> nat \<Rightarrow> nat \<Rightarrow> nat \<Rightarrow> js_error + image" where
  "getImageData canvas sx sy sw sh =
     (if sw = 0 \<or> sh = 0 then Inl IndexSizeError else Inr (region canvas sx sy sw sh))"

text \<open>\<open>ctx.putImageData(img, dx, dy)\<close>: the image replaces the pixels of the canvas
  under it; nothing is blended.\<close>

definition putImageData :: "image \<Rightarrow> image \<Rightarrow> nat \<Rightarrow> nat \<Rightarrow> image" where
  "putImageData canvas img dx dy =
     mk_image (iwidth canvas) (iheight canvas)
       (\<lambda>px py. if dx \<le> px \<and> px < dx + iwidth img \<and> dy \<le> py \<and> py < dy + iheight img
                 then pixel img (px - dx) (py - dy)
                 else pixel canvas px py)"

text \<open>\<open>ctx.putImageData(img, dx, dy, dirtyX, dirtyY, dirtyWidth, dirtyHeight)\<close>: only the
  pixels of the image inside the dirty rectangle (clipped to the image) are written.\<close>

definition putImageDataDirty ::
  "image \<Rightarrow> image \<Rightarrow> nat \<Rightarrow> nat \<Rightarrow> nat \<Rightarrow> nat \<Rightarrow> nat \<Rightarrow> nat \<Rightarrow> image" where
  "putImageDataDirty canvas img dx dy rx ry rw rh =
     mk_image (iwidth canvas) (iheight canvas)
       (\<lambda>px py. if dx \<le> px \<and> dy \<le> py
                    \<and> rx \<le> px - dx \<and> px - dx < rx + rw \<and> px - dx < iwidth img
                    \<and> ry \<le> py - dy \<and> py - dy < ry + rh \<and> py - dy < iheight img
                 then pixel img (px - dx) (py - dy)
                 else pixel canvas px py)"

text \<open>
  \<open>ctx.drawImage(src, dx, dy)\<close> with a canvas as source composites with the default
  operator, source-over; it throws an \<open>InvalidStateError\<close> when the source canvas has
  width or height zero. A transparent source pixel leaves the destination as it is and an
  opaque one replaces it; these are the only two cases the decoder produces. For a partly
  transparent source the usual formula on straight alpha is taken.
\<close>

definition blend_channel :: "nat \<Rightarrow> nat \<Rightarrow> nat \<Rightarrow> 8 word \<Rightarrow> 8 word \<Rightarrow> 8 word" where
  "blend_channel sa da oa cs cd =
     of_nat ((unat cs * sa * 255 + unat cd * da * (255 - sa)) div (oa * 255))"

definition source_over :: "rgba \<Rightarrow> rgba \<Rightarrow> rgba" where
  "source_over s d =
     (if alpha s = 0 then d
      else if alpha s = 255 then s
      else (let sa = unat (alpha s); da = unat (alpha d);
                oa = sa + da * (255 - sa) div 255
            in RGBA (blend_channel sa da oa (red s) (red d))
                    (blend_channel sa da oa (green s) (green d))
                    (blend_channel sa da oa (blue s) (blue d))
                    (of_nat oa)))"

definition composite :: "image \<Rightarrow> image \<Rightarrow> nat \<Rightarrow> nat \<Rightarrow> image" where
  "composite canvas src dx dy =
     mk_image (iwidth canvas) (iheight canvas)
       (\<lambda>px py. if dx \<le> px \<and> px < dx + iwidth src \<and> dy \<le> py \<and> py < dy + iheight src
                 then source_over (pixel src (px - dx) (py - dy)) (pixel canvas px py)
                 else pixel canvas px py)"

definition drawImage :: "image \<Rightarrow> image \<Rightarrow> nat \<Rightarrow> nat \<Rightarrow> js_error + image" where
  "drawImage canvas src dx dy =
     (if iwidth src = 0 \<or> iheight src = 0 then Inl InvalidStateError
      else Inr (composite canvas src dx dy))"

section \<open>The parser: \<open>GifReader\<close>\<close>

text \<open>
  The parser is a library the hook imports. What \<open>extractFrames\<close> uses of it is the size
  of the image, the number of frames, \<open>frameInfo\<close> and \<open>decodeAndBlitFrameRGBA\<close>. A frame
  is its rectangle, its disposal code, its delay in centiseconds and its pixels: \<open>patch\<close>
  gives the colour of the pixel in column \<open>i\<close> and row \<open>j\<close> of the rectangle, or \<open>None\<close>
  where the frame has its transparent index. The fields of a frame carry the names
  \<open>extractFrames\<close> binds them to.
\<close>

record frame_info =
  dirtyX :: nat
  dirtyY :: nat
  dirtyWidth :: nat
  dirtyHeight :: nat
  disposal :: nat
  delay :: nat
  patch :: "nat \<Rightarrow> nat \<Rightarrow> (8 word \<times> 8 word \<times> 8 word) option"

record gifReader =
  gif_width :: nat
  gif_height :: nat
  gif_frames :: "frame_info list"

definition numFrames :: "gifReader \<Rightarrow> nat" where
  "numFrames g = length (gif_frames g)"

text \<open>\<open>frameInfo\<close> throws for an index that is not a frame's.\<close>

definition frameInfo :: "gifReader \<Rightarrow> nat \<Rightarrow> js_error + frame_info" where
  "frameInfo g n = (if n < length (gif_frames g) then Inr (gif_frames g ! n)
                    else Inl FrameIndexOutOfRange)"

definition in_rect :: "frame_info \<Rightarrow> nat \<Rightarrow> nat \<Rightarrow> bool" where
  "in_rect f px py \<longleftrightarrow>
     dirtyX f \<le> px \<and> px < dirtyX f + dirtyWidth f \<and> dirtyY f \<le> py \<and> py < dirtyY f + dirtyHeight f"

text \<open>
  \<open>decodeAndBlitFrameRGBA(n, pixels)\<close> walks through the pixels of frame \<open>n\<close> row by row
  and writes each into the caller's buffer, opaque, skipping the transparent ones. The
  place of a pixel is counted from the corner of the frame's rectangle with the width of
  the GIF as the length of a row: a rectangle that leaves the image on the right runs on
  into the next row, and a write behind the end of the buffer is lost. The pixel in column
  \<open>i\<close> and row \<open>j\<close> is number \<open>j * dirtyWidth + i\<close> of the walk.
\<close>

definition blit_one :: "nat \<Rightarrow> frame_info \<Rightarrow> nat \<Rightarrow> rgba list \<Rightarrow> rgba list" where
  "blit_one w f k pixels =
     (let i = k mod dirtyWidth f; j = k div dirtyWidth f;
          pos = (dirtyY f * w + dirtyX f) + j * w + i
      in case patch f i j of
           None \<Rightarrow> pixels
         | Some (r, g, b) \<Rightarrow>
             if pos < length pixels then pixels[pos := RGBA r g b 255] else pixels)"

definition blitted :: "nat \<Rightarrow> frame_info \<Rightarrow> image \<Rightarrow> image" where
  "blitted w f pixels =
     pixels\<lparr>idata := fold (blit_one w f) [0..<dirtyWidth f * dirtyHeight f] (idata pixels)\<rparr>"

definition decodeAndBlitFrameRGBA :: "gifReader \<Rightarrow> nat \<Rightarrow> image \<Rightarrow> js_error + image" where
  "decodeAndBlitFrameRGBA g n pixels =
     (case frameInfo g n of
        Inl e \<Rightarrow> Inl e
      | Inr f \<Rightarrow> Inr (blitted (gif_width g) f pixels))"

section \<open>\<open>extractFrames\<close>\<close>

text \<open>
  Whether \<open>getContext("2d")\<close> gives a context is the environment's: once for the canvas
  that accumulates the frames, and once for the temporary canvas of each pass of the loop.
\<close>

record env =
  ctx_available :: bool
  temp_ctx_available :: "nat \<Rightarrow> bool"

record frame =
  frame_delay :: nat
  imageData :: image

text \<open>
  One pass of the loop, from the decoded pixels on: the temporary canvas takes the dirty
  rectangle of \<open>newImageData\<close>, and the disposal code decides how it reaches the canvas.
\<close>

definition renderTemp :: "nat \<Rightarrow> nat \<Rightarrow> frame_info \<Rightarrow> image \<Rightarrow> image" where
  "renderTemp w h info newImageData =
     putImageDataDirty (createCanvas w h) newImageData 0 0
       (dirtyX info) (dirtyY info) (dirtyWidth info) (dirtyHeight info)"

definition applyPatch ::
  "nat \<Rightarrow> nat \<Rightarrow> frame_info \<Rightarrow> image \<Rightarrow> image \<Rightarrow> js_error + image" where
  "applyPatch w h info newImageData canvas =
     (let tempCanvas = renderTemp w h info newImageData in
      if disposal info = 0 \<or> disposal info = 1 then drawImage canvas tempCanvas 0 0
      else if disposal info = 2 then
        js_bind (getImageData tempCanvas 0 0 (dirtyWidth info) (dirtyHeight info))
          (\<lambda>data. Inr (putImageData canvas data 0 0))
      else Inr canvas)"

text \<open>
  The body of the loop for the frame \<open>i\<close>: the metadata come from \<open>frameInfo(0)\<close>, the
  pixels from \<open>decodeAndBlitFrameRGBA(i, ...)\<close>. \<open>None\<close> is the \<open>null\<close> that is returned
  when the temporary canvas gives no context; otherwise the pass gives the canvas as it
  is afterwards and the frame it pushes.
\<close>

definition renderPass ::
  "env \<Rightarrow> gifReader \<Rightarrow> nat \<Rightarrow> image \<Rightarrow> js_error + (image \<times> frame) option" where
  "renderPass e g i canvas =
     (case frameInfo g 0 of
        Inl err \<Rightarrow> Inl err
      | Inr info \<Rightarrow>
          if \<not> temp_ctx_available e i then Inr None
          else
            js_bind (createImageData (gif_width g) (gif_height g)) (\<lambda>blank.
            js_bind (decodeAndBlitFrameRGBA g i blank) (\<lambda>newImageData.
            js_bind (applyPatch (gif_width g) (gif_height g) info newImageData canvas) (\<lambda>canvas'.
            js_bind (getImageData canvas' 0 0 (gif_width g) (gif_height g)) (\<lambda>data.
              Inr (Some (canvas', \<lparr>frame_delay = delay info * 10, imageData = data\<rparr>)))))))"

text \<open>The loop of \<open>extractFrames\<close>, and \<open>extractFrames\<close>: \<open>null\<close> at once when the canvas
  that accumulates the frames gives no context.\<close>

function extract_loop ::
  "env \<Rightarrow> gifReader \<Rightarrow> nat \<Rightarrow> image \<Rightarrow> frame list \<Rightarrow> js_error + frame list option" where
  "extract_loop e g i canvas frames =
     (if i < numFrames g then
        (case renderPass e g i canvas of
           Inl err \<Rightarrow> Inl err
         | Inr None \<Rightarrow> Inr None
         | Inr (Some (canvas', fr)) \<Rightarrow> extract_loop e g (i + 1) canvas' (frames @ [fr]))
      else Inr (Some frames))"
  by pat_completeness auto
termination
  by (relation "measure (\<lambda>(e, g, i, canvas, frames). numFrames g - i)") auto

definition extractFrames :: "env \<Rightarrow> gifReader \<Rightarrow> js_error + frame list option" where
  "extractFrames e g =
     (if \<not> ctx_available e then Inr None
      else extract_loop e g 0 (createCanvas (gif_width g) (gif_height g)) [])"

section \<open>The controller of \<open>useGifController\<close>\<close>

text \<open>
  The state of the hook: \<open>state\<close> is the value of the \<open>useState\<close> that holds the outcome
  of loading (at first \<open>{loading: true, error: false}\<close>), \<open>frameIndex\<close> and \<open>playing_ref\<close>
  are the refs \<open>frameIndex\<close> and \<open>_playing\<close>, \<open>playing\<close> is the state variable the hook
  returns, \<open>ctx\<close> is the 2D context of the canvas the caller passed (\<open>None\<close> when there is
  none), given by the image it shows, and \<open>timers\<close> are the callbacks that \<open>setTimeout\<close>
  holds and has not run yet, oldest first, each with its delay.
  The flags \<open>shouldUpdate\<close> and \<open>canvasAccessible\<close>, which only trigger the first render
  after loading, are left out.

  The functions of the hook are made anew by every render and see the values of that
  render: \<open>state\<close>, \<open>playing\<close> and whether \<open>ctx\<close> is there. The refs and the canvas are
  shared by all renders. A callback of \<open>setTimeout\<close> keeps the functions of the render
  that armed it. \<open>setPlaying\<close> only asks for a new value, kept in \<open>playing_set\<close>; the value
  changes at the next render, which runs the effect on \<open>[playing]\<close> if it has changed.
\<close>

datatype gif_state = Loading | Error string | Resolved gifReader "frame list"

record render =
  seen_state :: gif_state
  seen_playing :: bool
  seen_ctx :: bool

record controller =
  state :: gif_state
  frameIndex :: int
  playing :: bool
  playing_set :: "bool option"
  playing_ref :: bool
  ctx :: "image option"
  timers :: "(nat \<times> render) list"

definition initial_controller :: controller where
  "initial_controller =
     \<lparr>state = Loading, frameIndex = - 1, playing = False, playing_set = None,
      playing_ref = False, ctx = None, timers = []\<rparr>"

definition current_render :: "controller \<Rightarrow> render" where
  "current_render c =
     \<lparr>seen_state = state c, seen_playing = playing c, seen_ctx = (ctx c \<noteq> None)\<rparr>"

text \<open>
  The functions as a render \<open>r\<close> has made them, acting on the controller as it is when
  they are called; without \<open>_from\<close>, the function of the render that is current.
  Reading \<open>.imageData\<close> or \<open>.delay\<close> of \<open>state.frames[n]\<close> throws a \<open>TypeError\<close> when the
  array has no element \<open>n\<close>.
\<close>

definition renderFrame_from :: "render \<Rightarrow> int \<Rightarrow> controller \<Rightarrow> js_error + controller" where
  "renderFrame_from r n c =
     (if \<not> seen_ctx r then Inr c
      else
        (case seen_state r of
           Loading \<Rightarrow> Inr c
         | Error m \<Rightarrow> Inr c
         | Resolved g fs \<Rightarrow>
             if n < 0 \<or> n \<ge> int (numFrames g) then Inr c
             else if nat n < length fs
             then Inr (case ctx c of
                         None \<Rightarrow> c
                       | Some d \<Rightarrow> c\<lparr>ctx := Some (putImageData d (imageData (fs ! nat n)) 0 0)\<rparr>)
             else Inl TypeError))"

definition renderFrame :: "int \<Rightarrow> controller \<Rightarrow> js_error + controller" where
  "renderFrame n c = renderFrame_from (current_render c) n c"

definition renderNextFrame_from :: "render \<Rightarrow> controller \<Rightarrow> js_error + controller" where
  "renderNextFrame_from r c =
     (if \<not> seen_ctx r then Inr c
      else
        (case seen_state r of
           Loading \<Rightarrow> Inr c
         | Error m \<Rightarrow> Inr c
         | Resolved g fs \<Rightarrow>
             (let nextFrame = (if frameIndex c + 1 \<ge> int (numFrames g) then 0
                               else frameIndex c + 1)
              in js_bind (renderFrame_from r nextFrame c)
                   (\<lambda>c'. Inr (c'\<lparr>frameIndex := nextFrame\<rparr>)))))"

definition renderNextFrame :: "controller \<Rightarrow> js_error + controller" where
  "renderNextFrame c = renderNextFrame_from (current_render c) c"

definition renderPreviousFrame_from :: "render \<Rightarrow> controller \<Rightarrow> js_error + controller" where
  "renderPreviousFrame_from r c =
     (if \<not> seen_ctx r then Inr c
      else
        (case seen_state r of
           Loading \<Rightarrow> Inr c
         | Error m \<Rightarrow> Inr c
         | Resolved g fs \<Rightarrow>
             (let prevFrame = (if frameIndex c - 1 < 0 then int (numFrames g) - 1
                               else frameIndex c - 1)
              in js_bind (renderFrame_from r prevFrame c)
                   (\<lambda>c'. Inr (c'\<lparr>frameIndex := prevFrame\<rparr>)))))"

definition renderPreviousFrame :: "controller \<Rightarrow> js_error + controller" where
  "renderPreviousFrame c = renderPreviousFrame_from (current_render c) c"

text \<open>\<open>_iterateRenderLoop\<close>: unless loading, failed or not playing, one more callback is
  handed to \<open>setTimeout\<close>, with the delay of the current frame; the callback keeps the
  functions of the same render.\<close>

definition iterateRenderLoop_from :: "render \<Rightarrow> controller \<Rightarrow> js_error + controller" where
  "iterateRenderLoop_from r c =
     (case seen_state r of
        Loading \<Rightarrow> Inr c
      | Error m \<Rightarrow> Inr c
      | Resolved g fs \<Rightarrow>
          if \<not> playing_ref c then Inr c
          else if 0 \<le> frameIndex c \<and> nat (frameIndex c) < length fs
          then Inr (c\<lparr>timers := timers c @ [(frame_delay (fs ! nat (frameIndex c)), r)]\<rparr>)
          else Inl TypeError)"

text \<open>The effect on \<open>[playing]\<close>, run by the render in which \<open>playing\<close> has changed.\<close>

definition playing_effect :: "controller \<Rightarrow> js_error + controller" where
  "playing_effect c =
     (if playing c then iterateRenderLoop_from (current_render c) (c\<lparr>playing_ref := True\<rparr>)
      else Inr (c\<lparr>playing_ref := False\<rparr>))"

definition setPlaying :: "bool \<Rightarrow> controller \<Rightarrow> controller" where
  "setPlaying b c = c\<lparr>playing_set := Some b\<rparr>"

text \<open>The render that follows the calls of one handler: the last value asked for becomes
  the value of \<open>playing\<close>, and the effect runs if that is a change.\<close>

definition rerender :: "controller \<Rightarrow> js_error + controller" where
  "rerender c =
     (case playing_set c of
        None \<Rightarrow> Inr c
      | Some b \<Rightarrow>
          if b = playing c then Inr (c\<lparr>playing_set := None\<rparr>)
          else playing_effect (c\<lparr>playing := b, playing_set := None\<rparr>))"

definition play_from :: "render \<Rightarrow> controller \<Rightarrow> js_error + controller" where
  "play_from r c =
     (case seen_state r of
        Loading \<Rightarrow> Inr c
      | Error m \<Rightarrow> Inr c
      | Resolved g fs \<Rightarrow> if seen_playing r then Inr c else Inr (setPlaying True c))"

definition play :: "controller \<Rightarrow> js_error + controller" where
  "play c = play_from (current_render c) c"

definition pause :: "controller \<Rightarrow> js_error + controller" where
  "pause c = Inr (setPlaying False c)"

definition restart :: "controller \<Rightarrow> js_error + controller" where
  "restart c = Inr (c\<lparr>frameIndex := 0\<rparr>)"

text \<open>The callback of \<open>setTimeout\<close> runs: the oldest pending one leaves the queue, then
  \<open>renderNextFrame()\<close> and \<open>_iterateRenderLoop()\<close> of the render that armed it.\<close>

definition tick :: "controller \<Rightarrow> js_error + controller" where
  "tick c =
     (case timers c of
        [] \<Rightarrow> Inr c
      | (t, r) # ts \<Rightarrow>
          js_bind (renderNextFrame_from r (c\<lparr>timers := ts\<rparr>)) (iterateRenderLoop_from r))"

section \<open>Loading, and the source URL\<close>

text \<open>
  What \<open>loadGif\<close> does once the bytes are there and parsed: \<open>extractFrames\<close>, then
  \<open>setState\<close> with the failure or with the reader and its frames. When \<open>extractFrames\<close>
  throws, the promise of \<open>loadGif\<close> is rejected; nothing handles that, and the controller
  is left as it was.
\<close>

definition loadGif_resolves :: "env \<Rightarrow> gifReader \<Rightarrow> controller \<Rightarrow> js_error + controller" where
  "loadGif_resolves e g c =
     (case extractFrames e g of
        Inl err \<Rightarrow> Inl err
      | Inr None \<Rightarrow> Inr (c\<lparr>state := Error ''Could not extract frames from GIF.''\<rparr>)
      | Inr (Some frames) \<Rightarrow> Inr (c\<lparr>state := Resolved g frames\<rparr>))"

definition loadGif_settles :: "env \<Rightarrow> gifReader \<Rightarrow> controller \<Rightarrow> controller" where
  "loadGif_settles e g c = (case loadGif_resolves e g c of Inl err \<Rightarrow> c | Inr c' \<Rightarrow> c')"

text \<open>
  The hook with its \<open>url\<close> argument. The effect on \<open>[url]\<close> calls \<open>loadGif()\<close> at the first
  render and whenever the URL has changed; \<open>pending\<close> are the URLs of the calls that have
  not got their bytes yet. \<open>net\<close> is what fetching and parsing a URL gives.
\<close>

record hook =
  ctrl :: controller
  url :: string
  pending :: "string list"

datatype event = UrlChanges string | DecodeResolves nat

definition mount :: "string \<Rightarrow> hook" where
  "mount u = \<lparr>ctrl = initial_controller, url = u, pending = [u]\<rparr>"

definition step :: "env \<Rightarrow> (string \<Rightarrow> gifReader) \<Rightarrow> event \<Rightarrow> hook \<Rightarrow> js_error + hook" where
  "step e net ev h =
     (case ev of
        UrlChanges u \<Rightarrow>
          if u = url h then Inr h else Inr (h\<lparr>url := u, pending := pending h @ [u]\<rparr>)
      | DecodeResolves k \<Rightarrow>
          if k < length (pending h)
          then Inr (h\<lparr>ctrl := loadGif_settles e (net (pending h ! k)) (ctrl h),
                      pending := take k (pending h) @ drop (k + 1) (pending h)\<rparr>)
          else Inr h)"

fun run :: "env \<Rightarrow> (string \<Rightarrow> gifReader) \<Rightarrow> event list \<Rightarrow> hook \<Rightarrow> js_error + hook" where
  "run e net [] h = Inr h"
| "run e net (ev # evs) h = js_bind (step e net ev h) (run e net evs)"

section \<open>Inputs for the examples\<close>

text \<open>An environment in which every canvas gives its 2D context.\<close>

definition env_ok :: env where
  "env_ok = \<lparr>ctx_available = True, temp_ctx_available = (\<lambda>_. True)\<rparr>"

text \<open>A GIF of 2 by 1 pixels with two frames: the first paints the left pixel red and
  stays 10 centiseconds, the second paints the right pixel blue and stays 20.\<close>

definition two_frames :: gifReader where
  "two_frames =
     \<lparr>gif_width = 2, gif_height = 1,
      gif_frames =
        [\<lparr>dirtyX = 0, dirtyY = 0, dirtyWidth = 1, dirtyHeight = 1, disposal = 1, delay = 10,
          patch = (\<lambda>_ _. Some (255, 0, 0))\<rparr>,
         \<lparr>dirtyX = 1, dirtyY = 0, dirtyWidth = 1, dirtyHeight = 1, disposal = 1, delay = 20,
          patch = (\<lambda>_ _. Some (0, 0, 255))\<rparr>]\<rparr>"

text \<open>A GIF of 1 by 1 pixel in which the parser finds no frame.\<close>

definition no_frames :: gifReader where
  "no_frames = \<lparr>gif_width = 1, gif_height = 1, gif_frames = []\<rparr>"

text \<open>A canvas of 2 by 1 pixels, both blue, and the metadata of a frame whose rectangle
  is the right pixel, once with disposal code 1 and once with code 2.\<close>

definition blue_canvas :: image where
  "blue_canvas = mk_image 2 1 (\<lambda>_ _. RGBA 0 0 255 255)"

definition right_pixel :: "nat \<Rightarrow> frame_info" where
  "right_pixel code =
     \<lparr>dirtyX = 1, dirtyY = 0, dirtyWidth = 1, dirtyHeight = 1, disposal = code, delay = 10,
      patch = (\<lambda>_ _. Some (255, 0, 0))\<rparr>"

text \<open>Decoded pixels of 2 by 1: the left one red, the right one transparent; and the
  other way round.\<close>

definition red_left :: image where
  "red_left = mk_image 2 1 (\<lambda>px _. if px = 0 then RGBA 255 0 0 255 else transparent)"

definition red_right :: image where
  "red_right = mk_image 2 1 (\<lambda>px _. if px = 1 then RGBA 255 0 0 255 else transparent)"

text \<open>A GIF of 2 by 1 pixels with one frame, which paints the right pixel red and has
  disposal code 2.\<close>

definition offset_restore :: gifReader where
  "offset_restore = \<lparr>gif_width = 2, gif_height = 1, gif_frames = [right_pixel 2]\<rparr>"

text \<open>The controller once \<open>two_frames\<close> is loaded and its first frame is on the canvas:
  both frames returned by \<open>extractFrames\<close> show the left pixel red and stay 100 ms.\<close>

definition two_frames_extracted :: "frame list" where
  "two_frames_extracted =
     [\<lparr>frame_delay = 100, imageData = red_left\<rparr>, \<lparr>frame_delay = 100, imageData = red_left\<rparr>]"

definition ready_controller :: controller where
  "ready_controller =
     \<lparr>state = Resolved two_frames two_frames_extracted, frameIndex = 0, playing = False,
      playing_set = None, playing_ref = False, ctx = Some red_left, timers = []\<rparr>"

text \<open>An environment in which the canvas that accumulates the frames gives no context.\<close>

definition env_no_ctx :: env where
  "env_no_ctx = \<lparr>ctx_available = False, temp_ctx_available = (\<lambda>_. True)\<rparr>"

text \<open>Two URLs with different GIFs behind them.\<close>

definition example_net :: "string \<Rightarrow> gifReader" where
  "example_net u = (if u = ''a.gif'' then two_frames else offset_restore)"

text \<open>What a caller sees of the hook: the URL it passed and the state.\<close>

definition url_and_state :: "hook \<Rightarrow> string \<times> gif_state" where
  "url_and_state h = (url h, state (ctrl h))"

text \<open>A GIF of no width and no height in which the parser finds one frame.\<close>

definition zero_size :: gifReader where
  "zero_size =
     \<lparr>gif_width = 0, gif_height = 0,
      gif_frames =
        [\<lparr>dirtyX = 0, dirtyY = 0, dirtyWidth = 0, dirtyHeight = 0, disposal = 1, delay = 10,
          patch = (\<lambda>_ _. None)\<rparr>]\<rparr>"

text \<open>A GIF of 2 by 1 pixels with two frames: the first paints both pixels red and has
  disposal code 2, the second paints the right pixel blue and has disposal code 1.\<close>

definition restore_then_keep :: gifReader where
  "restore_then_keep =
     \<lparr>gif_width = 2, gif_height = 1,
      gif_frames =
        [\<lparr>dirtyX = 0, dirtyY = 0, dirtyWidth = 2, dirtyHeight = 1, disposal = 2, delay = 10,
          patch = (\<lambda>_ _. Some (255, 0, 0))\<rparr>,
         \<lparr>dirtyX = 1, dirtyY = 0, dirtyWidth = 1, dirtyHeight = 1, disposal = 1, delay = 10,
          patch = (\<lambda>_ _. Some (0, 0, 255))\<rparr>]\<rparr>"

text \<open>An environment in which the temporary canvas of the third pass gives no context,
  and a GIF with a third frame.\<close>

definition env_two_passes :: env where
  "env_two_passes = \<lparr>ctx_available = True, temp_ctx_available = (\<lambda>i. i < 2)\<rparr>"

definition three_frames :: gifReader where
  "three_frames = two_frames\<lparr>gif_frames := gif_frames two_frames @ [right_pixel 1]\<rparr>"

text \<open>
  The hook with a canvas of 2 by 1 pixels that is there from the start. Then: \<open>two_frames\<close>
  is loaded, \<open>renderNextFrame()\<close> is called twice, and the load of \<open>three_frames\<close>, for a
  new URL, ends; in \<open>env_two_passes\<close> that load fails. \<open>kept_render\<close> is the render of the
  time when \<open>two_frames\<close> was loaded, whose functions a caller may have kept.
\<close>

definition canvas_controller :: controller where
  "canvas_controller = initial_controller\<lparr>ctx := Some (createCanvas 2 1)\<rparr>"

definition kept_render :: render where
  "kept_render =
     \<lparr>seen_state = Resolved two_frames two_frames_extracted, seen_playing = False,
      seen_ctx = True\<rparr>"

definition error_after_ready :: "js_error + controller" where
  "error_after_ready =
     js_bind (js_bind (js_bind (loadGif_resolves env_two_passes two_frames canvas_controller)
                renderNextFrame) renderNextFrame)
       (loadGif_resolves env_two_passes three_frames)"

text \<open>The hook with its canvas once \<open>two_frames\<close> is loaded and nothing has been
  rendered yet, and once the GIF without frames is loaded and \<open>renderNextFrame()\<close> has been
  called.\<close>

definition ready_unrendered :: controller where
  "ready_unrendered = canvas_controller\<lparr>state := Resolved two_frames two_frames_extracted\<rparr>"

definition ready_no_frames :: controller where
  "ready_no_frames = canvas_controller\<lparr>state := Resolved no_frames [], frameIndex := 0\<rparr>"

section \<open>Pixels of the canvas operations\<close>

lemma index_in_raster: "px < w \<Longrightarrow> py < h \<Longrightarrow> py * w + px < w * (h::nat)"
proof -
  assume a: "px < w" and b: "py < h"
  have "py * w + px < py * w + w" using a by simp
  also have "\<dots> = (Suc py) * w" by simp
  also have "\<dots> \<le> h * w" using b by (intro mult_le_mono1) simp
  finally show ?thesis by (simp add: mult.commute)
qed

lemma pixel_mk_image:
  "pixel (mk_image w h f) px py = (if px < w \<and> py < h then f px py else transparent)"
proof (cases "px < w \<and> py < h")
  case True
  then have "py * w + px < w * h" by (simp add: index_in_raster)
  with True show ?thesis by (simp add: pixel_def mk_image_def)
next
  case False
  then show ?thesis by (auto simp: pixel_def mk_image_def)
qed

lemma iwidth_mk_image: "iwidth (mk_image w h f) = w"
  by (simp add: mk_image_def)

lemma iheight_mk_image: "iheight (mk_image w h f) = h"
  by (simp add: mk_image_def)

lemma pixel_outside: "\<not> (px < iwidth img \<and> py < iheight img) \<Longrightarrow> pixel img px py = transparent"
  by (auto simp: pixel_def)

lemma pixel_createCanvas: "pixel (createCanvas w h) px py = transparent"
  by (simp add: createCanvas_def pixel_mk_image)

lemma createImageData_ok:
  "0 < w \<Longrightarrow> 0 < h \<Longrightarrow> createImageData w h = Inr (mk_image w h (\<lambda>_ _. transparent))"
  by (simp add: createImageData_def)

lemma getImageData_ok:
  "0 < sw \<Longrightarrow> 0 < sh \<Longrightarrow> getImageData canvas sx sy sw sh = Inr (region canvas sx sy sw sh)"
  by (simp add: getImageData_def)

lemma drawImage_ok:
  "0 < iwidth src \<Longrightarrow> 0 < iheight src \<Longrightarrow> drawImage canvas src dx dy = Inr (composite canvas src dx dy)"
  by (simp add: drawImage_def)

lemma pixel_region:
  "pixel (region canvas sx sy sw sh) px py =
     (if px < sw \<and> py < sh then pixel canvas (sx + px) (sy + py) else transparent)"
  by (simp add: region_def pixel_mk_image)

lemma pixel_putImageData:
  "pixel (putImageData canvas img 0 0) px py =
     (if px < iwidth canvas \<and> py < iheight canvas
      then (if px < iwidth img \<and> py < iheight img then pixel img px py else pixel canvas px py)
      else transparent)"
  by (simp add: putImageData_def pixel_mk_image)

lemma pixel_putImageDataDirty:
  "pixel (putImageDataDirty canvas img 0 0 rx ry rw rh) px py =
     (if px < iwidth canvas \<and> py < iheight canvas
      then (if rx \<le> px \<and> px < rx + rw \<and> px < iwidth img \<and> ry \<le> py \<and> py < ry + rh \<and> py < iheight img
            then pixel img px py else pixel canvas px py)
      else transparent)"
  by (simp add: putImageDataDirty_def pixel_mk_image)

lemma pixel_composite:
  "pixel (composite canvas src 0 0) px py =
     (if px < iwidth canvas \<and> py < iheight canvas
      then (if px < iwidth src \<and> py < iheight src
            then source_over (pixel src px py) (pixel canvas px py) else pixel canvas px py)
      else transparent)"
  by (simp add: composite_def pixel_mk_image)

lemma size_ops:
  "iwidth (createCanvas w h) = w" "iheight (createCanvas w h) = h"
  "iwidth (region canvas sx sy sw sh) = sw" "iheight (region canvas sx sy sw sh) = sh"
  "iwidth (putImageData canvas img dx dy) = iwidth canvas"
  "iheight (putImageData canvas img dx dy) = iheight canvas"
  "iwidth (putImageDataDirty canvas img dx dy rx ry rw rh) = iwidth canvas"
  "iheight (putImageDataDirty canvas img dx dy rx ry rw rh) = iheight canvas"
  "iwidth (composite canvas src dx dy) = iwidth canvas"
  "iheight (composite canvas src dx dy) = iheight canvas"
  by (simp_all add: createCanvas_def region_def putImageData_def
      putImageDataDirty_def composite_def mk_image_def)

lemma pixel_renderTemp:
  "pixel (renderTemp w h info newImageData) px py =
     (if px < w \<and> py < h \<and> in_rect info px py \<and> px < iwidth newImageData \<and> py < iheight newImageData
      then pixel newImageData px py else transparent)"
  by (auto simp: renderTemp_def pixel_putImageDataDirty size_ops pixel_createCanvas in_rect_def)

lemma size_renderTemp:
  "iwidth (renderTemp w h info newImageData) = w" "iheight (renderTemp w h info newImageData) = h"
  by (simp_all add: renderTemp_def size_ops)

section \<open>The pixels the parser writes\<close>

lemma length_blit_one: "length (blit_one w f k pixels) = length pixels"
  by (simp add: blit_one_def Let_def split: option.splits prod.splits)

lemma length_fold_blit: "length (fold (blit_one w f) ks pixels) = length pixels"
  by (induction ks arbitrary: pixels) (simp_all add: length_blit_one)

lemma place_unique:
  fixes w :: nat
  assumes "px < w" "qx < w" "py * w + px = qy * w + qx"
  shows "px = qx \<and> py = qy"
proof -
  have "(py * w + px) div w = py" "(qy * w + qx) div w = qy" using assms(1,2) by simp_all
  then have "py = qy" using assms(3) by simp
  with assms(3) show ?thesis by simp
qed

text \<open>For a rectangle inside the image, the first \<open>n\<close> pixels of the walk have been
  written after \<open>n\<close> steps, each at its place in the rectangle.\<close>

lemma fold_blit_inside:
  assumes inside: "dirtyX f + dirtyWidth f \<le> w" "dirtyY f + dirtyHeight f \<le> h"
    and len: "length pixels = w * h"
    and n: "n \<le> dirtyWidth f * dirtyHeight f"
    and p: "px < w" "py < h"
  shows "fold (blit_one w f) [0..<n] pixels ! (py * w + px) =
     (if in_rect f px py \<and> (py - dirtyY f) * dirtyWidth f + (px - dirtyX f) < n
      then (case patch f (px - dirtyX f) (py - dirtyY f) of
              None \<Rightarrow> pixels ! (py * w + px)
            | Some (r, g, b) \<Rightarrow> RGBA r g b 255)
      else pixels ! (py * w + px))"
  using n
proof (induction n)
  case 0
  then show ?case by simp
next
  case (Suc n)
  let ?fw = "dirtyWidth f"
  let ?i = "n mod ?fw" and ?j = "n div ?fw"
  let ?pos = "(dirtyY f * w + dirtyX f) + ?j * w + ?i"
  let ?old = "fold (blit_one w f) [0..<n] pixels"
  from Suc.prems have nlt: "n < ?fw * dirtyHeight f" by simp
  then have fw: "0 < ?fw" by (cases ?fw) auto
  have i: "?i < ?fw" using fw by simp
  have j: "?j < dirtyHeight f" using nlt by (simp add: less_mult_imp_div_less mult.commute)
  have posxy: "?pos = (dirtyY f + ?j) * w + (dirtyX f + ?i)" by (simp add: algebra_simps)
  have x0: "dirtyX f + ?i < w" using i inside(1) by simp
  have y0: "dirtyY f + ?j < h" using j inside(2) by simp
  have poslt: "?pos < length ?old"
    unfolding posxy length_fold_blit len using x0 y0 by (rule index_in_raster)
  have here: "(in_rect f px py \<and> (py - dirtyY f) * ?fw + (px - dirtyX f) = n)
              \<longleftrightarrow> (px = dirtyX f + ?i \<and> py = dirtyY f + ?j)"
  proof
    assume a: "in_rect f px py \<and> (py - dirtyY f) * ?fw + (px - dirtyX f) = n"
    then have lt: "px - dirtyX f < ?fw" and ge: "dirtyX f \<le> px" "dirtyY f \<le> py"
      by (auto simp: in_rect_def)
    from a have "n mod ?fw = px - dirtyX f" "n div ?fw = py - dirtyY f" using lt by auto
    then show "px = dirtyX f + ?i \<and> py = dirtyY f + ?j" using ge by simp
  next
    assume a: "px = dirtyX f + ?i \<and> py = dirtyY f + ?j"
    then show "in_rect f px py \<and> (py - dirtyY f) * ?fw + (px - dirtyX f) = n"
      using i j by (simp add: in_rect_def mult.commute)
  qed
  have same: "py * w + px = ?pos \<longleftrightarrow> (px = dirtyX f + ?i \<and> py = dirtyY f + ?j)"
    unfolding posxy using place_unique[OF p(1) x0] by auto
  have IH: "?old ! (py * w + px) =
     (if in_rect f px py \<and> (py - dirtyY f) * ?fw + (px - dirtyX f) < n
      then (case patch f (px - dirtyX f) (py - dirtyY f) of
              None \<Rightarrow> pixels ! (py * w + px)
            | Some (r, g, b) \<Rightarrow> RGBA r g b 255)
      else pixels ! (py * w + px))"
    using Suc.IH Suc.prems by simp
  have step: "fold (blit_one w f) [0..<Suc n] pixels = blit_one w f n ?old" by simp
  show ?case
  proof (cases "px = dirtyX f + ?i \<and> py = dirtyY f + ?j")
    case True
    then have eqn: "in_rect f px py" "(py - dirtyY f) * ?fw + (px - dirtyX f) = n"
      using here by auto
    have loc: "px - dirtyX f = ?i" "py - dirtyY f = ?j" using True by auto
    have at: "py * w + px = ?pos" using same True by simp
    show ?thesis
    proof (cases "patch f ?i ?j")
      case None
      then have "blit_one w f n ?old = ?old" by (simp add: blit_one_def Let_def)
      then show ?thesis unfolding step using IH eqn None loc by simp
    next
      case (Some c)
      obtain r g b where c: "c = (r, g, b)" by (cases c) auto
      have "blit_one w f n ?old = ?old[?pos := RGBA r g b 255]"
        using Some c poslt by (simp add: blit_one_def Let_def)
      then show ?thesis unfolding step using eqn Some c loc at poslt by simp
    qed
  next
    case False
    then have ne: "py * w + px \<noteq> ?pos" using same by simp
    from False have neq: "\<not> (in_rect f px py \<and> (py - dirtyY f) * ?fw + (px - dirtyX f) = n)"
      using here by simp
    have keep: "blit_one w f n ?old ! (py * w + px) = ?old ! (py * w + px)"
      using ne by (auto simp: blit_one_def Let_def split: option.splits prod.splits)
    have "(in_rect f px py \<and> (py - dirtyY f) * ?fw + (px - dirtyX f) < Suc n)
          \<longleftrightarrow> (in_rect f px py \<and> (py - dirtyY f) * ?fw + (px - dirtyX f) < n)"
      using neq by (auto simp: less_Suc_eq)
    then show ?thesis unfolding step keep IH by simp
  qed
qed

lemma size_blitted:
  "iwidth (blitted w f pixels) = iwidth pixels" "iheight (blitted w f pixels) = iheight pixels"
  "length (idata (blitted w f pixels)) = length (idata pixels)"
  by (simp_all add: blitted_def length_fold_blit)

text \<open>A frame whose rectangle lies inside the image: its pixels land in the rectangle,
  the transparent ones and everything outside the rectangle stay as they were.\<close>

lemma pixel_blitted:
  assumes "iwidth pixels = w" and "length (idata pixels) = w * iheight pixels"
    and "dirtyX f + dirtyWidth f \<le> w" and "dirtyY f + dirtyHeight f \<le> iheight pixels"
  shows "pixel (blitted w f pixels) px py =
     (if in_rect f px py
      then (case patch f (px - dirtyX f) (py - dirtyY f) of
              None \<Rightarrow> pixel pixels px py
            | Some (r, g, b) \<Rightarrow> RGBA r g b 255)
      else pixel pixels px py)"
proof (cases "px < w \<and> py < iheight pixels")
  case True
  then have lt: "py * w + px < w * iheight pixels" by (simp add: index_in_raster)
  have all: "(py - dirtyY f) * dirtyWidth f + (px - dirtyX f) < dirtyWidth f * dirtyHeight f"
    if "in_rect f px py"
  proof -
    from that have "px - dirtyX f < dirtyWidth f" "py - dirtyY f < dirtyHeight f"
      by (auto simp: in_rect_def)
    then show ?thesis by (rule index_in_raster)
  qed
  have "pixel (blitted w f pixels) px py
          = fold (blit_one w f) [0..<dirtyWidth f * dirtyHeight f] (idata pixels) ! (py * w + px)"
    using True lt assms(1,2) by (simp add: pixel_def blitted_def length_fold_blit)
  also have "\<dots> = (if in_rect f px py
      then (case patch f (px - dirtyX f) (py - dirtyY f) of
              None \<Rightarrow> idata pixels ! (py * w + px)
            | Some (r, g, b) \<Rightarrow> RGBA r g b 255)
      else idata pixels ! (py * w + px))"
    using fold_blit_inside[OF assms(3,4,2) order_refl, of px py] True all by auto
  also have "idata pixels ! (py * w + px) = pixel pixels px py"
    using True lt assms(1,2) by (simp add: pixel_def)
  finally show ?thesis .
next
  case False
  then have out: "\<not> in_rect f px py" using assms(3,4) by (auto simp: in_rect_def)
  from False have "pixel (blitted w f pixels) px py = transparent" "pixel pixels px py = transparent"
    using assms(1) by (auto simp: pixel_outside size_blitted)
  with out show ?thesis by simp
qed

lemma length_idata_mk_image: "length (idata (mk_image w h f)) = w * h"
  by (simp add: mk_image_def)

lemma pixel_blitted_blank:
  assumes "dirtyX f + dirtyWidth f \<le> w" and "dirtyY f + dirtyHeight f \<le> h"
  shows "pixel (blitted w f (mk_image w h (\<lambda>_ _. transparent))) px py =
     (if in_rect f px py
      then (case patch f (px - dirtyX f) (py - dirtyY f) of
              None \<Rightarrow> transparent
            | Some (r, g, b) \<Rightarrow> RGBA r g b 255)
      else transparent)"
proof -
  have blank: "pixel (mk_image w h (\<lambda>_ _. transparent)) px py = transparent"
    by (simp add: pixel_mk_image)
  show ?thesis
    using assms
    by (subst pixel_blitted[where w = w])
       (simp_all add: iwidth_mk_image iheight_mk_image length_idata_mk_image blank
          cong: option.case_cong)
qed

lemma frameInfo_in_range: "n < numFrames g \<Longrightarrow> frameInfo g n = Inr (gif_frames g ! n)"
  by (simp add: frameInfo_def numFrames_def)

lemma decodeAndBlit_in_range:
  "n < numFrames g \<Longrightarrow>
   decodeAndBlitFrameRGBA g n pixels = Inr (blitted (gif_width g) (gif_frames g ! n) pixels)"
  by (simp add: decodeAndBlitFrameRGBA_def frameInfo_in_range)

section \<open>One pass of the loop\<close>

lemma applyPatch_keep:
  "disposal info = 0 \<or> disposal info = 1 \<Longrightarrow> 0 < w \<Longrightarrow> 0 < h \<Longrightarrow>
   applyPatch w h info newImageData canvas
     = Inr (composite canvas (renderTemp w h info newImageData) 0 0)"
  by (auto simp: applyPatch_def Let_def drawImage_def size_renderTemp)

lemma applyPatch_restore:
  "disposal info = 2 \<Longrightarrow> 0 < dirtyWidth info \<Longrightarrow> 0 < dirtyHeight info \<Longrightarrow>
   applyPatch w h info newImageData canvas
     = Inr (putImageData canvas
              (region (renderTemp w h info newImageData) 0 0 (dirtyWidth info) (dirtyHeight info))
              0 0)"
  by (simp add: applyPatch_def Let_def getImageData_def js_bind_def)

lemma applyPatch_other:
  "2 < disposal info \<Longrightarrow> applyPatch w h info newImageData canvas = Inr canvas"
  by (simp add: applyPatch_def Let_def)

lemma applyPatch_zero_rect:
  "disposal info = 2 \<Longrightarrow> dirtyWidth info = 0 \<or> dirtyHeight info = 0 \<Longrightarrow>
   applyPatch w h info newImageData canvas = Inl IndexSizeError"
  by (auto simp: applyPatch_def Let_def getImageData_def js_bind_def)

lemma applyPatch_ok:
  assumes "0 < w" and "0 < h"
    and "disposal info = 2 \<Longrightarrow> 0 < dirtyWidth info \<and> 0 < dirtyHeight info"
  shows "\<exists>canvas'. applyPatch w h info newImageData canvas = Inr canvas'"
proof -
  consider "disposal info = 0 \<or> disposal info = 1" | "disposal info = 2" | "2 < disposal info"
    by linarith
  then show ?thesis
  proof cases
    case 1
    then show ?thesis using assms(1,2) by (simp add: applyPatch_keep)
  next
    case 2
    then show ?thesis using assms(3) by (simp add: applyPatch_restore)
  next
    case 3
    then show ?thesis by (simp add: applyPatch_other)
  qed
qed

lemma pixel_applyPatch_keep:
  assumes "disposal info = 0 \<or> disposal info = 1"
    and "applyPatch w h info newImageData canvas = Inr canvas'"
  shows "pixel canvas' px py =
     (if px < iwidth canvas \<and> py < iheight canvas
      then source_over (pixel (renderTemp w h info newImageData) px py) (pixel canvas px py)
      else transparent)"
proof -
  from assms have "canvas' = composite canvas (renderTemp w h info newImageData) 0 0"
    by (auto simp: applyPatch_def Let_def drawImage_def split: if_splits)
  then show ?thesis
    by (auto simp: pixel_composite size_renderTemp pixel_renderTemp source_over_def transparent_def)
qed

text \<open>With disposal code 0 or 1 in the metadata it is given, a pass leaves the canvas
  as it is outside the rectangle of those metadata and where the decoded pixels are
  transparent.\<close>

lemma applyPatch_keeps_pixel:
  assumes "disposal info = 0 \<or> disposal info = 1"
    and "applyPatch w h info newImageData canvas = Inr canvas'"
    and "\<not> in_rect info px py \<or> alpha (pixel newImageData px py) = 0"
  shows "pixel canvas' px py = pixel canvas px py"
proof -
  have "alpha (pixel (renderTemp w h info newImageData) px py) = 0"
    using assms(3) by (auto simp: pixel_renderTemp transparent_def)
  then show ?thesis
    using pixel_applyPatch_keep [OF assms(1,2), of px py] pixel_outside [of px canvas py]
    by (auto simp: source_over_def)
qed

lemma renderPass_null:
  "i < numFrames g \<Longrightarrow> \<not> temp_ctx_available e i \<Longrightarrow> renderPass e g i canvas = Inr None"
  by (simp add: renderPass_def frameInfo_in_range)

lemma renderPass_zero_size:
  "i < numFrames g \<Longrightarrow> temp_ctx_available e i \<Longrightarrow> gif_width g = 0 \<or> gif_height g = 0 \<Longrightarrow>
   renderPass e g i canvas = Inl IndexSizeError"
  by (auto simp: renderPass_def frameInfo_in_range createImageData_def js_bind_def)

lemma renderPass_applyPatch:
  assumes "i < numFrames g" and "temp_ctx_available e i"
    and "0 < gif_width g" and "0 < gif_height g"
  shows "renderPass e g i canvas =
     (case applyPatch (gif_width g) (gif_height g) (gif_frames g ! 0)
             (blitted (gif_width g) (gif_frames g ! i)
                (mk_image (gif_width g) (gif_height g) (\<lambda>_ _. transparent))) canvas of
        Inl err \<Rightarrow> Inl err
      | Inr canvas' \<Rightarrow>
          Inr (Some (canvas', \<lparr>frame_delay = delay (gif_frames g ! 0) * 10,
                               imageData = region canvas' 0 0 (gif_width g) (gif_height g)\<rparr>)))"
  using assms
  by (simp add: renderPass_def frameInfo_in_range createImageData_ok decodeAndBlit_in_range
      getImageData_ok js_bind_def split: sum.splits)

lemma renderPass_delay:
  "renderPass e g i canvas = Inr (Some (canvas', fr)) \<Longrightarrow>
   frame_delay fr = delay (gif_frames g ! 0) * 10"
  by (auto simp: renderPass_def frameInfo_def js_bind_def split: sum.splits if_splits)

section \<open>The loop\<close>

lemmas extract_loop_simps = extract_loop.simps
declare extract_loop.simps [simp del]

lemma extract_loop_done: "\<not> i < numFrames g \<Longrightarrow> extract_loop e g i canvas frames = Inr (Some frames)"
  by (simp add: extract_loop_simps)

lemma extract_loop_pass:
  "i < numFrames g \<Longrightarrow> renderPass e g i canvas = Inr (Some (canvas', fr)) \<Longrightarrow>
   extract_loop e g i canvas frames = extract_loop e g (Suc i) canvas' (frames @ [fr])"
  by (subst extract_loop_simps) simp

lemma extract_loop_error:
  "i < numFrames g \<Longrightarrow> renderPass e g i canvas = Inl err \<Longrightarrow>
   extract_loop e g i canvas frames = Inl err"
  by (subst extract_loop_simps) simp

lemma extract_loop_length:
  assumes "0 < gif_width g" and "0 < gif_height g"
    and "disposal (gif_frames g ! 0) = 2 \<Longrightarrow>
           0 < dirtyWidth (gif_frames g ! 0) \<and> 0 < dirtyHeight (gif_frames g ! 0)"
    and "\<forall>k. i \<le> k \<and> k < numFrames g \<longrightarrow> temp_ctx_available e k"
  shows "\<exists>fs. extract_loop e g i canvas frames = Inr (Some fs)
            \<and> length fs = length frames + (numFrames g - i)"
  using assms
proof (induction e g i canvas frames rule: extract_loop.induct)
  case (1 e g i canvas frames)
  show ?case
  proof (cases "i < numFrames g")
    case False
    then show ?thesis by (simp add: extract_loop_done)
  next
    case True
    have tc: "temp_ctx_available e i" using True "1.prems"(4) by simp
    have "\<exists>canvas'. applyPatch (gif_width g) (gif_height g) (gif_frames g ! 0)
             (blitted (gif_width g) (gif_frames g ! i)
                (mk_image (gif_width g) (gif_height g) (\<lambda>_ _. transparent))) canvas = Inr canvas'"
      using "1.prems"(1,2,3) by (intro applyPatch_ok) auto
    then obtain canvas' where ap: "applyPatch (gif_width g) (gif_height g) (gif_frames g ! 0)
             (blitted (gif_width g) (gif_frames g ! i)
                (mk_image (gif_width g) (gif_height g) (\<lambda>_ _. transparent))) canvas = Inr canvas'"
      by blast
    let ?fr = "\<lparr>frame_delay = delay (gif_frames g ! 0) * 10,
               imageData = region canvas' 0 0 (gif_width g) (gif_height g)\<rparr>"
    have rp: "renderPass e g i canvas = Inr (Some (canvas', ?fr))"
      using renderPass_applyPatch[OF True tc "1.prems"(1,2)] ap by simp
    have rest: "\<forall>k. i + 1 \<le> k \<and> k < numFrames g \<longrightarrow> temp_ctx_available e k"
      using "1.prems"(4) by simp
    from "1.IH"[OF True rp refl refl "1.prems"(1,2,3) rest]
    obtain fs where "extract_loop e g (i + 1) canvas' (frames @ [?fr]) = Inr (Some fs)"
      and "length fs = length (frames @ [?fr]) + (numFrames g - (i + 1))"
      by auto
    then show ?thesis
      using True by (simp add: extract_loop_pass[OF True rp])
  qed
qed

lemma extract_loop_step:
  assumes "i < numFrames g" and "extract_loop e g i canvas frames = Inr (Some fs)"
  shows "\<exists>canvas' fr. renderPass e g i canvas = Inr (Some (canvas', fr))
           \<and> extract_loop e g (Suc i) canvas' (frames @ [fr]) = Inr (Some fs)"
  using assms
  by (subst (asm) extract_loop_simps) (auto split: sum.splits option.splits)

text \<open>Every frame that is returned has the delay of frame 0.\<close>

lemma extract_loop_delays:
  "extract_loop e g i canvas frames = Inr (Some fs) \<Longrightarrow>
   map frame_delay fs =
     map frame_delay frames @ replicate (numFrames g - i) (delay (gif_frames g ! 0) * 10)"
proof (induction e g i canvas frames rule: extract_loop.induct)
  case (1 e g i canvas frames)
  show ?case
  proof (cases "i < numFrames g")
    case False
    with "1.prems" show ?thesis by (simp add: extract_loop_done)
  next
    case True
    from extract_loop_step[OF True "1.prems"]
    obtain canvas' fr where rp: "renderPass e g i canvas = Inr (Some (canvas', fr))"
      and nx: "extract_loop e g (i + 1) canvas' (frames @ [fr]) = Inr (Some fs)"
      by auto
    have n: "numFrames g - i = Suc (numFrames g - (i + 1))" using True by simp
    from "1.IH"[OF True rp refl refl nx] renderPass_delay[OF rp]
    show ?thesis by (simp add: n)
  qed
qed

lemma extract_loop_prefix:
  "extract_loop e g i canvas frames = Inr (Some fs) \<Longrightarrow> \<exists>rest. fs = frames @ rest"
proof (induction e g i canvas frames rule: extract_loop.induct)
  case (1 e g i canvas frames)
  show ?case
  proof (cases "i < numFrames g")
    case False
    with "1.prems" show ?thesis by (simp add: extract_loop_done)
  next
    case True
    from extract_loop_step[OF True "1.prems"]
    obtain canvas' fr where rp: "renderPass e g i canvas = Inr (Some (canvas', fr))"
      and nx: "extract_loop e g (i + 1) canvas' (frames @ [fr]) = Inr (Some fs)"
      by auto
    from "1.IH"[OF True rp refl refl nx] show ?thesis by auto
  qed
qed

section \<open>What \<open>extractFrames\<close> returns\<close>

lemma extractFrames_no_frames:
  "numFrames g = 0 \<Longrightarrow> extractFrames e g = (if ctx_available e then Inr (Some []) else Inr None)"
  by (simp add: extractFrames_def extract_loop_done)

text \<open>
  C10 (as the code has it). When the canvas that accumulates the frames and the
  temporary canvas of every pass give their 2D context: for a reader with no frame
  \<open>extractFrames\<close> returns the empty array, not \<open>null\<close>; for a reader of positive width and
  height (and, if frame 0 has disposal code 2, a rectangle of frame 0 of positive width
  and height) it returns an array with as many elements as \<open>numFrames()\<close> says; for a
  reader with a frame and width or height zero, or with disposal code 2 and a rectangle
  of width or height zero in frame 0, it throws the \<open>IndexSizeError\<close> of the canvas in the
  first pass.
\<close>

theorem extractFrames_returns_every_frame:
  assumes "ctx_available e" and "\<forall>k. k < numFrames g \<longrightarrow> temp_ctx_available e k"
  shows "(numFrames g = 0 \<longrightarrow> extractFrames e g = Inr (Some []))
       \<and> (0 < gif_width g \<and> 0 < gif_height g
            \<and> (disposal (gif_frames g ! 0) = 2 \<longrightarrow>
                 0 < dirtyWidth (gif_frames g ! 0) \<and> 0 < dirtyHeight (gif_frames g ! 0)) \<longrightarrow>
            (\<exists>fs. extractFrames e g = Inr (Some fs) \<and> length fs = numFrames g))
       \<and> (0 < numFrames g \<and> (gif_width g = 0 \<or> gif_height g = 0) \<longrightarrow>
            extractFrames e g = Inl IndexSizeError)
       \<and> (0 < numFrames g \<and> 0 < gif_width g \<and> 0 < gif_height g
            \<and> disposal (gif_frames g ! 0) = 2
            \<and> (dirtyWidth (gif_frames g ! 0) = 0 \<or> dirtyHeight (gif_frames g ! 0) = 0) \<longrightarrow>
            extractFrames e g = Inl IndexSizeError)"
proof (intro conjI impI)
  assume "numFrames g = 0"
  then show "extractFrames e g = Inr (Some [])"
    using assms(1) by (simp add: extractFrames_no_frames)
next
  assume a: "0 < gif_width g \<and> 0 < gif_height g
            \<and> (disposal (gif_frames g ! 0) = 2 \<longrightarrow>
                 0 < dirtyWidth (gif_frames g ! 0) \<and> 0 < dirtyHeight (gif_frames g ! 0))"
  have "\<forall>k. 0 \<le> k \<and> k < numFrames g \<longrightarrow> temp_ctx_available e k"
    using assms(2) by simp
  with a have "\<exists>fs. extract_loop e g 0 (createCanvas (gif_width g) (gif_height g)) []
                      = Inr (Some fs)
                  \<and> length fs = length ([]::frame list) + (numFrames g - 0)"
    by (intro extract_loop_length) auto
  then show "\<exists>fs. extractFrames e g = Inr (Some fs) \<and> length fs = numFrames g"
    using assms(1) by (simp add: extractFrames_def)
next
  assume a: "0 < numFrames g \<and> (gif_width g = 0 \<or> gif_height g = 0)"
  then have tc: "temp_ctx_available e 0" using assms(2) by simp
  from a have "renderPass e g 0 (createCanvas (gif_width g) (gif_height g)) = Inl IndexSizeError"
    using tc by (intro renderPass_zero_size) auto
  then show "extractFrames e g = Inl IndexSizeError"
    using a assms(1) by (simp add: extractFrames_def extract_loop_error)
next
  assume a: "0 < numFrames g \<and> 0 < gif_width g \<and> 0 < gif_height g
            \<and> disposal (gif_frames g ! 0) = 2
            \<and> (dirtyWidth (gif_frames g ! 0) = 0 \<or> dirtyHeight (gif_frames g ! 0) = 0)"
  then have tc: "temp_ctx_available e 0" using assms(2) by simp
  from a have "renderPass e g 0 (createCanvas (gif_width g) (gif_height g)) = Inl IndexSizeError"
    using tc by (simp add: renderPass_applyPatch applyPatch_zero_rect)
  then show "extractFrames e g = Inl IndexSizeError"
    using a assms(1) by (simp add: extractFrames_def extract_loop_error)
qed

theorem extractFrames_returns_every_frame_witness:
  "extractFrames env_ok no_frames = Inr (Some [])
   \<and> (\<exists>fs. extractFrames env_ok two_frames = Inr (Some fs) \<and> length fs = 2)
   \<and> extractFrames env_ok zero_size = Inl IndexSizeError"
proof -
  have ok: "ctx_available env_ok" by (simp add: env_ok_def)
  have tmp: "\<forall>k. k < numFrames g \<longrightarrow> temp_ctx_available env_ok k" for g
    by (simp add: env_ok_def)
  have two: "numFrames two_frames = 2" "0 < gif_width two_frames" "0 < gif_height two_frames"
    "disposal (gif_frames two_frames ! 0) \<noteq> 2"
    by (simp_all add: numFrames_def two_frames_def)
  have none: "numFrames no_frames = 0" by (simp add: numFrames_def no_frames_def)
  have zero: "0 < numFrames zero_size" "gif_width zero_size = 0"
    by (simp_all add: numFrames_def zero_size_def)
  show ?thesis
    using extractFrames_returns_every_frame [OF ok tmp, of two_frames]
      extractFrames_returns_every_frame [OF ok tmp, of no_frames]
      extractFrames_returns_every_frame [OF ok tmp, of zero_size]
    by (simp add: two none zero)
qed

text \<open>
  C10 (as stated) fails: for the GIF of no width and no height with one frame, with every
  context available, \<open>extractFrames\<close> returns no array: \<open>createImageData(0, 0)\<close> throws.
\<close>

theorem zero_size_throws_counterexample:
  "ctx_available env_ok \<and> temp_ctx_available env_ok 0 \<and> numFrames zero_size = 1
   \<and> extractFrames env_ok zero_size = Inl IndexSizeError"
  by (simp add: env_ok_def numFrames_def zero_size_def extractFrames_def extract_loop_simps
      renderPass_def frameInfo_def createImageData_def js_bind_def)

section \<open>The example GIFs\<close>

lemma mk_image_cong:
  "(\<And>px py. px < w \<Longrightarrow> py < h \<Longrightarrow> f px py = f' px py) \<Longrightarrow> mk_image w h f = mk_image w h f'"
proof -
  assume eq: "\<And>px py. px < w \<Longrightarrow> py < h \<Longrightarrow> f px py = f' px py"
  have "f (k mod w) (k div w) = f' (k mod w) (k div w)" if "k < w * h" for k
  proof -
    from that have "0 < w" by (cases w) auto
    moreover from that have "k div w < h" by (simp add: less_mult_imp_div_less mult.commute)
    ultimately show ?thesis by (simp add: eq)
  qed
  then show ?thesis by (simp add: mk_image_def)
qed

lemma source_over_transparent [simp]: "source_over transparent d = d"
  by (simp add: source_over_def transparent_def)

lemma source_over_opaque [simp]: "source_over (RGBA r g b 255) d = RGBA r g b 255"
  by (simp add: source_over_def)

lemma region_red_left:
  assumes "pixel c 0 0 = RGBA 255 0 0 255" and "pixel c 1 0 = transparent"
  shows "region c 0 0 2 1 = red_left"
  unfolding region_def red_left_def
proof (rule mk_image_cong)
  fix px py :: nat
  assume "px < 2" "py < 1"
  then have "px = 0 \<or> px = 1" and "py = 0" by auto
  then show "pixel c (0 + px) (0 + py) = (if px = 0 then RGBA 255 0 0 255 else transparent)"
    using assms by auto
qed

lemma extractFrames_one_pass:
  assumes "ctx_available e" and "numFrames g = 1"
    and "renderPass e g 0 (createCanvas (gif_width g) (gif_height g)) = Inr (Some (c1, fr0))"
  shows "extractFrames e g = Inr (Some [fr0])"
proof -
  let ?c0 = "createCanvas (gif_width g) (gif_height g)"
  have s0: "extract_loop e g 0 ?c0 [] = extract_loop e g (Suc 0) c1 ([] @ [fr0])"
    by (rule extract_loop_pass[OF _ assms(3)]) (simp add: assms(2))
  have s1: "extract_loop e g (Suc 0) c1 ([] @ [fr0]) = Inr (Some ([] @ [fr0]))"
    by (rule extract_loop_done) (simp add: assms(2))
  have "extract_loop e g 0 ?c0 [] = Inr (Some ([] @ [fr0]))"
    by (simp only: s0 s1)
  then show ?thesis using assms(1) by (simp add: extractFrames_def)
qed

lemma extractFrames_two_passes:
  assumes "ctx_available e" and "numFrames g = 2"
    and "renderPass e g 0 (createCanvas (gif_width g) (gif_height g)) = Inr (Some (c1, fr0))"
    and "renderPass e g (Suc 0) c1 = Inr (Some (c2, fr1))"
  shows "extractFrames e g = Inr (Some [fr0, fr1])"
proof -
  let ?c0 = "createCanvas (gif_width g) (gif_height g)"
  have s0: "extract_loop e g 0 ?c0 [] = extract_loop e g (Suc 0) c1 ([] @ [fr0])"
    by (rule extract_loop_pass[OF _ assms(3)]) (simp add: assms(2))
  have s1: "extract_loop e g (Suc 0) c1 ([] @ [fr0])
              = extract_loop e g (Suc (Suc 0)) c2 (([] @ [fr0]) @ [fr1])"
    by (rule extract_loop_pass[OF _ assms(4)]) (simp add: assms(2))
  have s2: "extract_loop e g (Suc (Suc 0)) c2 (([] @ [fr0]) @ [fr1])
              = Inr (Some (([] @ [fr0]) @ [fr1]))"
    by (rule extract_loop_done) (simp add: assms(2))
  have "extract_loop e g 0 ?c0 [] = Inr (Some (([] @ [fr0]) @ [fr1]))"
    by (simp only: s0 s1 s2)
  then show ?thesis using assms(1) by (simp add: extractFrames_def)
qed

text \<open>\<open>extractFrames\<close> on \<open>two_frames\<close>, when the contexts it asks for are there: both
  frames show the left pixel red and stay 100 ms.\<close>

lemma extractFrames_two_frames:
  assumes "ctx_available e" and "temp_ctx_available e 0" and "temp_ctx_available e 1"
  shows "extractFrames e two_frames = Inr (Some two_frames_extracted)"
proof -
  let ?f0 = "\<lparr>dirtyX = 0, dirtyY = 0, dirtyWidth = 1, dirtyHeight = 1, disposal = 1, delay = 10,
          patch = (\<lambda>_ _. Some (255, 0, 0))\<rparr> :: frame_info"
  let ?f1 = "\<lparr>dirtyX = 1, dirtyY = 0, dirtyWidth = 1, dirtyHeight = 1, disposal = 1, delay = 20,
          patch = (\<lambda>_ _. Some (0, 0, 255))\<rparr> :: frame_info"
  let ?blank = "mk_image 2 1 (\<lambda>_ _. transparent)"
  let ?c0 = "createCanvas 2 1"
  let ?c1 = "composite ?c0 (renderTemp 2 1 ?f0 (blitted 2 ?f0 ?blank)) 0 0"
  let ?c2 = "composite ?c1 (renderTemp 2 1 ?f0 (blitted 2 ?f1 ?blank)) 0 0"
  have n: "numFrames two_frames = 2" by (simp add: two_frames_def numFrames_def)
  have g: "gif_width two_frames = 2" "gif_height two_frames = 1"
    "gif_frames two_frames ! 0 = ?f0" "gif_frames two_frames ! Suc 0 = ?f1"
    by (simp_all add: two_frames_def)
  have p0: "renderPass e two_frames 0 (createCanvas (gif_width two_frames) (gif_height two_frames))
              = Inr (Some (?c1, \<lparr>frame_delay = 100, imageData = region ?c1 0 0 2 1\<rparr>))"
    using assms(2) by (simp add: renderPass_applyPatch n g applyPatch_keep)
  have p1: "renderPass e two_frames (Suc 0) ?c1
              = Inr (Some (?c2, \<lparr>frame_delay = 100, imageData = region ?c2 0 0 2 1\<rparr>))"
    using assms(3) by (simp add: renderPass_applyPatch n g applyPatch_keep)
  have px1: "pixel ?c1 0 0 = RGBA 255 0 0 255" "pixel ?c1 1 0 = transparent"
    by (simp_all add: pixel_composite size_ops size_renderTemp pixel_renderTemp size_blitted
        iwidth_mk_image iheight_mk_image pixel_blitted_blank in_rect_def pixel_createCanvas)
  have px2: "pixel ?c2 0 0 = RGBA 255 0 0 255" "pixel ?c2 1 0 = transparent"
    using px1
    by (simp_all add: pixel_composite size_ops size_renderTemp pixel_renderTemp size_blitted
        iwidth_mk_image iheight_mk_image pixel_blitted_blank in_rect_def)
  have r1: "region ?c1 0 0 2 1 = red_left" by (rule region_red_left[OF px1])
  have r2: "region ?c2 0 0 2 1 = red_left" by (rule region_red_left[OF px2])
  show ?thesis
    using extractFrames_two_passes[OF assms(1) n p0 p1]
    by (simp only: r1 r2 two_frames_extracted_def)
qed

text \<open>
  C1. The loop should fetch rectangle, disposal code and delay of frame \<open>i\<close> with the
  index \<open>i\<close>. It calls \<open>frameInfo(0)\<close> in every pass. On the GIF \<open>two_frames\<close> both
  frames come out with the delay of the first (100 ms, where the second has 200 ms of its
  own), and the blue pixel of the second frame, which lies outside the rectangle of the
  first, never reaches the picture: it stays transparent.
\<close>

theorem extractFrames_uses_first_frame_metadata:
  "\<exists>fs. extractFrames env_ok two_frames = Inr (Some fs)
        \<and> map frame_delay fs = [100, 100]
        \<and> map (\<lambda>f. delay f * 10) (gif_frames two_frames) = [100, 200]
        \<and> pixel (imageData (fs ! 1)) 1 0 = transparent"
proof -
  have a: "extractFrames env_ok two_frames = Inr (Some two_frames_extracted)"
    by (rule extractFrames_two_frames) (simp_all add: env_ok_def)
  have b: "map frame_delay two_frames_extracted = [100, 100]"
    by (simp add: two_frames_extracted_def)
  have c: "map (\<lambda>f. delay f * 10) (gif_frames two_frames) = [100, 200]"
    by (simp add: two_frames_def)
  have d: "pixel (imageData (two_frames_extracted ! 1)) 1 0 = transparent"
    by (simp add: two_frames_extracted_def red_left_def pixel_mk_image)
  show ?thesis
    by (rule exI[of _ two_frames_extracted]) (simp only: a b c d simp_thms)
qed

text \<open>
  C4. For disposal code 2 the dirty rectangle of the temporary layer should be copied to
  the canvas at the rectangle's own place. The code reads the rectangle of the dirty
  width and height at the corner (0, 0) of the temporary layer and writes it at (0, 0).
  With the dirty rectangle at the right pixel of a blue canvas: the red pixel of the
  layer, at (1, 0), is not written, and the pixel at (0, 0), outside the rectangle, is
  overwritten with the transparent one of the layer. On the GIF \<open>offset_restore\<close> the frame
  that comes out is all transparent.
\<close>

theorem applyPatch_restore_at_origin:
  "pixel (renderTemp 2 1 (right_pixel 2) red_right) 1 0 = RGBA 255 0 0 255
   \<and> (\<exists>canvas'. applyPatch 2 1 (right_pixel 2) red_right blue_canvas = Inr canvas'
          \<and> pixel canvas' 1 0 = RGBA 0 0 255 255
          \<and> pixel canvas' 0 0 = transparent)
   \<and> pixel blue_canvas 0 0 = RGBA 0 0 255 255
   \<and> (\<exists>fs. extractFrames env_ok offset_restore = Inr (Some fs)
           \<and> pixel (imageData (fs ! 0)) 1 0 = transparent)"
proof -
  let ?f = "right_pixel 2"
  let ?blank = "mk_image 2 1 (\<lambda>_ _. transparent)"
  let ?c1 = "putImageData (createCanvas 2 1)
               (region (renderTemp 2 1 ?f (blitted 2 ?f ?blank)) 0 0 1 1) 0 0"
  have f: "disposal ?f = 2" "dirtyWidth ?f = 1" "dirtyHeight ?f = 1" "dirtyX ?f = 1" "dirtyY ?f = 0"
    by (simp_all add: right_pixel_def)
  have a: "pixel (renderTemp 2 1 ?f red_right) 1 0 = RGBA 255 0 0 255"
    by (simp add: pixel_renderTemp in_rect_def f red_right_def pixel_mk_image iwidth_mk_image
        iheight_mk_image)
  have ap: "applyPatch 2 1 ?f red_right blue_canvas
              = Inr (putImageData blue_canvas (region (renderTemp 2 1 ?f red_right) 0 0 1 1) 0 0)"
    using applyPatch_restore[of ?f 2 1 red_right blue_canvas] by (simp add: f)
  have b: "pixel (putImageData blue_canvas (region (renderTemp 2 1 ?f red_right) 0 0 1 1) 0 0) 1 0
             = RGBA 0 0 255 255"
    by (simp add: pixel_putImageData size_ops blue_canvas_def pixel_mk_image iwidth_mk_image
        iheight_mk_image)
  have c: "pixel (putImageData blue_canvas (region (renderTemp 2 1 ?f red_right) 0 0 1 1) 0 0) 0 0
             = transparent"
    by (simp add: pixel_putImageData size_ops blue_canvas_def iwidth_mk_image iheight_mk_image
        pixel_region pixel_renderTemp in_rect_def f)
  have d: "pixel blue_canvas 0 0 = RGBA 0 0 255 255"
    by (simp add: blue_canvas_def pixel_mk_image)
  have n: "numFrames offset_restore = 1" by (simp add: offset_restore_def numFrames_def)
  have g: "gif_width offset_restore = 2" "gif_height offset_restore = 1"
    "gif_frames offset_restore ! 0 = ?f"
    by (simp_all add: offset_restore_def)
  have p0: "renderPass env_ok offset_restore 0
              (createCanvas (gif_width offset_restore) (gif_height offset_restore))
              = Inr (Some (?c1, \<lparr>frame_delay = 100, imageData = region ?c1 0 0 2 1\<rparr>))"
    using applyPatch_restore[of ?f 2 1 "blitted 2 ?f ?blank" "createCanvas 2 1"]
    by (simp add: renderPass_applyPatch n g f env_ok_def right_pixel_def)
  have e: "pixel (region ?c1 0 0 2 1) 1 0 = transparent"
    by (simp add: pixel_region pixel_putImageData size_ops pixel_createCanvas)
  have "extractFrames env_ok offset_restore
          = Inr (Some [\<lparr>frame_delay = 100, imageData = region ?c1 0 0 2 1\<rparr>])"
    by (rule extractFrames_one_pass[OF _ n p0]) (simp add: env_ok_def)
  then have "\<exists>fs. extractFrames env_ok offset_restore = Inr (Some fs)
           \<and> pixel (imageData (fs ! 0)) 1 0 = transparent"
    using e by simp
  with a ap b c d show ?thesis by simp
qed

text \<open>
  C6. For a patch with disposal code 0 or 1, the frame that is emitted should show, at
  every position outside the patch's dirty rectangle, what the frame before it shows.
  The loop takes the disposal code and the rectangle of every frame from \<open>frameInfo(0)\<close>.
  On the GIF \<open>restore_then_keep\<close> the second frame has disposal code 1 and its rectangle
  is the right pixel; the loop treats it with the code 2 and the rectangle of the first
  frame and replaces the whole canvas: the left pixel, red in the first frame that is
  returned, is transparent in the second.
\<close>

theorem own_disposal_not_used:
  "\<exists>fs. extractFrames env_ok restore_then_keep = Inr (Some fs)
        \<and> disposal (gif_frames restore_then_keep ! 1) = 1
        \<and> \<not> in_rect (gif_frames restore_then_keep ! 1) 0 0
        \<and> pixel (imageData (fs ! 0)) 0 0 = RGBA 255 0 0 255
        \<and> pixel (imageData (fs ! 1)) 0 0 = transparent"
proof -
  let ?f0 = "\<lparr>dirtyX = 0, dirtyY = 0, dirtyWidth = 2, dirtyHeight = 1, disposal = 2, delay = 10,
          patch = (\<lambda>_ _. Some (255, 0, 0))\<rparr> :: frame_info"
  let ?f1 = "\<lparr>dirtyX = 1, dirtyY = 0, dirtyWidth = 1, dirtyHeight = 1, disposal = 1, delay = 10,
          patch = (\<lambda>_ _. Some (0, 0, 255))\<rparr> :: frame_info"
  let ?blank = "mk_image 2 1 (\<lambda>_ _. transparent)"
  let ?c0 = "createCanvas 2 1"
  let ?c1 = "putImageData ?c0 (region (renderTemp 2 1 ?f0 (blitted 2 ?f0 ?blank)) 0 0 2 1) 0 0"
  let ?c2 = "putImageData ?c1 (region (renderTemp 2 1 ?f0 (blitted 2 ?f1 ?blank)) 0 0 2 1) 0 0"
  let ?fr0 = "\<lparr>frame_delay = 100, imageData = region ?c1 0 0 2 1\<rparr>"
  let ?fr1 = "\<lparr>frame_delay = 100, imageData = region ?c2 0 0 2 1\<rparr>"
  have n: "numFrames restore_then_keep = 2" by (simp add: restore_then_keep_def numFrames_def)
  have g: "gif_width restore_then_keep = 2" "gif_height restore_then_keep = 1"
    "gif_frames restore_then_keep ! 0 = ?f0" "gif_frames restore_then_keep ! Suc 0 = ?f1"
    by (simp_all add: restore_then_keep_def)
  have p0: "renderPass env_ok restore_then_keep 0
              (createCanvas (gif_width restore_then_keep) (gif_height restore_then_keep))
              = Inr (Some (?c1, ?fr0))"
    using applyPatch_restore[of ?f0 2 1 "blitted 2 ?f0 ?blank" ?c0]
    by (simp add: renderPass_applyPatch n g env_ok_def)
  have p1: "renderPass env_ok restore_then_keep (Suc 0) ?c1 = Inr (Some (?c2, ?fr1))"
    using applyPatch_restore[of ?f0 2 1 "blitted 2 ?f1 ?blank" ?c1]
    by (simp add: renderPass_applyPatch n g env_ok_def)
  have fs: "extractFrames env_ok restore_then_keep = Inr (Some [?fr0, ?fr1])"
    by (rule extractFrames_two_passes[OF _ n p0 p1]) (simp add: env_ok_def)
  have a: "pixel (region ?c1 0 0 2 1) 0 0 = RGBA 255 0 0 255"
    by (simp add: pixel_region pixel_putImageData size_ops pixel_renderTemp size_blitted
        iwidth_mk_image iheight_mk_image pixel_blitted_blank in_rect_def)
  have b: "pixel (region ?c2 0 0 2 1) 0 0 = transparent"
    by (simp add: pixel_region pixel_putImageData size_ops pixel_renderTemp size_blitted
        iwidth_mk_image iheight_mk_image pixel_blitted_blank in_rect_def)
  have c: "disposal (gif_frames restore_then_keep ! 1) = 1"
    "\<not> in_rect (gif_frames restore_then_keep ! 1) 0 0"
    by (simp_all add: restore_then_keep_def in_rect_def)
  show ?thesis using fs a b c by simp
qed

section \<open>The operations of the controller\<close>

text \<open>The functions of the current render, written out.\<close>

lemma renderFrame_unfold:
  "renderFrame n c =
     (case ctx c of
        None \<Rightarrow> Inr c
      | Some d \<Rightarrow>
          (case state c of
             Loading \<Rightarrow> Inr c
           | Error m \<Rightarrow> Inr c
           | Resolved g fs \<Rightarrow>
               if n < 0 \<or> n \<ge> int (numFrames g) then Inr c
               else if nat n < length fs
               then Inr (c\<lparr>ctx := Some (putImageData d (imageData (fs ! nat n)) 0 0)\<rparr>)
               else Inl TypeError))"
  by (simp add: renderFrame_def renderFrame_from_def current_render_def
      split: option.splits gif_state.splits)

lemma renderNextFrame_unfold:
  "renderNextFrame c =
     (case ctx c of
        None \<Rightarrow> Inr c
      | Some d \<Rightarrow>
          (case state c of
             Loading \<Rightarrow> Inr c
           | Error m \<Rightarrow> Inr c
           | Resolved g fs \<Rightarrow>
               (let nextFrame = (if frameIndex c + 1 \<ge> int (numFrames g) then 0
                                 else frameIndex c + 1)
                in js_bind (renderFrame nextFrame c)
                     (\<lambda>c'. Inr (c'\<lparr>frameIndex := nextFrame\<rparr>)))))"
  by (simp add: renderNextFrame_def renderNextFrame_from_def renderFrame_def current_render_def
      split: option.splits gif_state.splits)

lemma renderPreviousFrame_unfold:
  "renderPreviousFrame c =
     (case ctx c of
        None \<Rightarrow> Inr c
      | Some d \<Rightarrow>
          (case state c of
             Loading \<Rightarrow> Inr c
           | Error m \<Rightarrow> Inr c
           | Resolved g fs \<Rightarrow>
               (let prevFrame = (if frameIndex c - 1 < 0 then int (numFrames g) - 1
                                 else frameIndex c - 1)
                in js_bind (renderFrame prevFrame c)
                     (\<lambda>c'. Inr (c'\<lparr>frameIndex := prevFrame\<rparr>)))))"
  by (simp add: renderPreviousFrame_def renderPreviousFrame_from_def renderFrame_def
      current_render_def split: option.splits gif_state.splits)

lemma renderFrame_out_of_range:
  "state c = Resolved g fs \<Longrightarrow> n < 0 \<or> int (numFrames g) \<le> n \<Longrightarrow> renderFrame n c = Inr c"
  by (auto simp: renderFrame_unfold split: option.splits)

lemma renderFrame_in_range:
  "state c = Resolved g fs \<Longrightarrow> length fs = numFrames g \<Longrightarrow> ctx c = Some d \<Longrightarrow>
   0 \<le> n \<Longrightarrow> n < int (numFrames g) \<Longrightarrow>
   renderFrame n c = Inr (c\<lparr>ctx := Some (putImageData d (imageData (fs ! nat n)) 0 0)\<rparr>)"
  by (auto simp: renderFrame_unfold)

text \<open>
  C3 (as the code has it). In the resolved state, with a canvas to draw on,
  \<open>renderFrame(n)\<close> changes nothing when \<open>n\<close> is outside \<open>[0, numFrames())\<close>; otherwise it
  raises nothing and changes the canvas only: inside the image of frame \<open>n\<close> the canvas
  shows that image, elsewhere what it showed before. The frame index, the state, the
  playing flags and the pending timers are as before.
\<close>

theorem renderFrame_draws_only:
  assumes "state c = Resolved g fs" and "length fs = numFrames g" and "ctx c = Some d"
  shows "(n < 0 \<or> int (numFrames g) \<le> n \<longrightarrow> renderFrame n c = Inr c)
       \<and> (0 \<le> n \<and> n < int (numFrames g) \<longrightarrow>
            (\<exists>d'. renderFrame n c = Inr (c\<lparr>ctx := Some d'\<rparr>)
                \<and> frameIndex (c\<lparr>ctx := Some d'\<rparr>) = frameIndex c
                \<and> iwidth d' = iwidth d \<and> iheight d' = iheight d
                \<and> (\<forall>px py. px < iwidth d \<and> py < iheight d \<longrightarrow>
                      pixel d' px py =
                        (if px < iwidth (imageData (fs ! nat n)) \<and> py < iheight (imageData (fs ! nat n))
                         then pixel (imageData (fs ! nat n)) px py else pixel d px py))))"
proof (intro conjI impI)
  assume "n < 0 \<or> int (numFrames g) \<le> n"
  then show "renderFrame n c = Inr c"
    using assms(1) by (rule renderFrame_out_of_range[rotated])
next
  assume "0 \<le> n \<and> n < int (numFrames g)"
  then have r: "renderFrame n c = Inr (c\<lparr>ctx := Some (putImageData d (imageData (fs ! nat n)) 0 0)\<rparr>)"
    using assms by (simp add: renderFrame_in_range)
  show "\<exists>d'. renderFrame n c = Inr (c\<lparr>ctx := Some d'\<rparr>)
                \<and> frameIndex (c\<lparr>ctx := Some d'\<rparr>) = frameIndex c
                \<and> iwidth d' = iwidth d \<and> iheight d' = iheight d
                \<and> (\<forall>px py. px < iwidth d \<and> py < iheight d \<longrightarrow>
                      pixel d' px py =
                        (if px < iwidth (imageData (fs ! nat n)) \<and> py < iheight (imageData (fs ! nat n))
                         then pixel (imageData (fs ! nat n)) px py else pixel d px py))"
    by (rule exI[of _ "putImageData d (imageData (fs ! nat n)) 0 0"])
       (simp add: r size_ops pixel_putImageData)
qed

theorem renderFrame_draws_only_witness:
  "renderFrame 5 ready_controller = Inr ready_controller
   \<and> (\<exists>d'. renderFrame 1 ready_controller = Inr (ready_controller\<lparr>ctx := Some d'\<rparr>)
          \<and> frameIndex (ready_controller\<lparr>ctx := Some d'\<rparr>) = 0
          \<and> pixel d' 0 0 = RGBA 255 0 0 255)"
proof -
  have s: "state ready_controller = Resolved two_frames two_frames_extracted"
    and l: "length two_frames_extracted = numFrames two_frames"
    and d: "ctx ready_controller = Some red_left"
    by (simp_all add: ready_controller_def two_frames_extracted_def numFrames_def two_frames_def)
  have n: "numFrames two_frames = 2" by (simp add: numFrames_def two_frames_def)
  have i: "frameIndex ready_controller = 0" by (simp add: ready_controller_def)
  have p: "pixel (imageData (two_frames_extracted ! nat 1)) 0 0 = RGBA 255 0 0 255"
    "iwidth (imageData (two_frames_extracted ! nat 1)) = 2"
    "iheight (imageData (two_frames_extracted ! nat 1)) = 1"
    "iwidth red_left = 2" "iheight red_left = 1"
    by (simp_all add: two_frames_extracted_def red_left_def pixel_mk_image iwidth_mk_image
        iheight_mk_image)
  from renderFrame_draws_only [OF s l d, of 5] have a: "renderFrame 5 ready_controller = Inr ready_controller"
    by (simp add: n)
  from renderFrame_draws_only [OF s l d, of 1]
  obtain d' where "renderFrame 1 ready_controller = Inr (ready_controller\<lparr>ctx := Some d'\<rparr>)"
    and "frameIndex (ready_controller\<lparr>ctx := Some d'\<rparr>) = frameIndex ready_controller"
    and "\<forall>px py. px < iwidth red_left \<and> py < iheight red_left \<longrightarrow>
                      pixel d' px py =
                        (if px < iwidth (imageData (two_frames_extracted ! nat 1)) \<and> py < iheight (imageData (two_frames_extracted ! nat 1))
                         then pixel (imageData (two_frames_extracted ! nat 1)) px py else pixel red_left px py)"
    by (auto simp: n)
  then show ?thesis using a i p by auto
qed

text \<open>
  C3 (as the spec has it) fails: on the controller that shows frame 0 of two,
  \<open>renderFrame(1)\<close> does not return with the frame index at 1.
\<close>

theorem renderFrame_sets_index_counterexample:
  "map_sum id frameIndex (renderFrame 1 ready_controller) \<noteq> Inr 1"
  by (simp add: renderFrame_unfold ready_controller_def numFrames_def two_frames_def
      two_frames_extracted_def)

lemma extractFrames_length: "extractFrames e g = Inr (Some fs) \<Longrightarrow> length fs = numFrames g"
proof -
  assume a: "extractFrames e g = Inr (Some fs)"
  then have "extract_loop e g 0 (createCanvas (gif_width g) (gif_height g)) [] = Inr (Some fs)"
    by (simp add: extractFrames_def split: if_splits)
  from extract_loop_delays[OF this]
  have "length (map frame_delay fs)
          = length (replicate (numFrames g) (delay (gif_frames g ! 0) * 10))"
    by simp
  then show ?thesis by simp
qed

lemma extract_loop_null_pass:
  "i < numFrames g \<Longrightarrow> renderPass e g i canvas = Inr None \<Longrightarrow>
   extract_loop e g i canvas frames = Inr None"
  by (subst extract_loop_simps) simp

text \<open>The loop returns \<open>null\<close> at the first pass whose temporary canvas gives no
  context.\<close>

lemma extract_loop_null:
  assumes "0 < gif_width g" and "0 < gif_height g"
    and "disposal (gif_frames g ! 0) = 2 \<Longrightarrow>
           0 < dirtyWidth (gif_frames g ! 0) \<and> 0 < dirtyHeight (gif_frames g ! 0)"
    and "k < numFrames g" and "\<not> temp_ctx_available e k"
    and "\<forall>j. i \<le> j \<and> j < k \<longrightarrow> temp_ctx_available e j" and "i \<le> k"
  shows "extract_loop e g i canvas frames = Inr None"
  using assms
proof (induction e g i canvas frames rule: extract_loop.induct)
  case (1 e g i canvas frames)
  have lt: "i < numFrames g" using "1.prems"(4,7) by simp
  show ?case
  proof (cases "i = k")
    case True
    then show ?thesis
      using lt "1.prems"(5) by (simp add: extract_loop_null_pass renderPass_null)
  next
    case False
    then have ik: "i < k" using "1.prems"(7) by simp
    then have tc: "temp_ctx_available e i" using "1.prems"(6) by simp
    have "\<exists>canvas'. applyPatch (gif_width g) (gif_height g) (gif_frames g ! 0)
             (blitted (gif_width g) (gif_frames g ! i)
                (mk_image (gif_width g) (gif_height g) (\<lambda>_ _. transparent))) canvas = Inr canvas'"
      using "1.prems"(1,2,3) by (intro applyPatch_ok) auto
    then obtain canvas' where ap: "applyPatch (gif_width g) (gif_height g) (gif_frames g ! 0)
             (blitted (gif_width g) (gif_frames g ! i)
                (mk_image (gif_width g) (gif_height g) (\<lambda>_ _. transparent))) canvas = Inr canvas'"
      by blast
    let ?fr = "\<lparr>frame_delay = delay (gif_frames g ! 0) * 10,
               imageData = region canvas' 0 0 (gif_width g) (gif_height g)\<rparr>"
    have rp: "renderPass e g i canvas = Inr (Some (canvas', ?fr))"
      using renderPass_applyPatch[OF lt tc "1.prems"(1,2)] ap by simp
    have rest: "\<forall>j. i + 1 \<le> j \<and> j < k \<longrightarrow> temp_ctx_available e j"
      using "1.prems"(6) by simp
    have "i + 1 \<le> k" using ik by simp
    from "1.IH"[OF lt rp refl refl "1.prems"(1,2,3,4,5) rest this]
    show ?thesis by (simp add: extract_loop_pass[OF lt rp])
  qed
qed

lemma loadGif_resolves_two_frames:
  assumes "ctx_available e" and "temp_ctx_available e 0" and "temp_ctx_available e 1"
  shows "loadGif_resolves e two_frames c
           = Inr (c\<lparr>state := Resolved two_frames two_frames_extracted\<rparr>)"
  by (simp add: loadGif_resolves_def extractFrames_two_frames[OF assms])

lemma loadGif_resolves_three_frames:
  "loadGif_resolves env_two_passes three_frames c
     = Inr (c\<lparr>state := Error ''Could not extract frames from GIF.''\<rparr>)"
proof -
  have "extract_loop env_two_passes three_frames 0
          (createCanvas (gif_width three_frames) (gif_height three_frames)) [] = Inr None"
    by (rule extract_loop_null[where k = 2])
       (simp_all add: three_frames_def two_frames_def numFrames_def env_two_passes_def)
  then have "extractFrames env_two_passes three_frames = Inr None"
    by (simp add: extractFrames_def)
  then show ?thesis by (simp add: loadGif_resolves_def)
qed

text \<open>What has become of the hook in \<open>error_after_ready\<close>.\<close>

lemma error_after_ready_value:
  "error_after_ready =
     Inr \<lparr>state = Error ''Could not extract frames from GIF.'', frameIndex = 1, playing = False,
          playing_set = None, playing_ref = False,
          ctx = Some (putImageData (putImageData (createCanvas 2 1) red_left 0 0) red_left 0 0),
          timers = []\<rparr>"
proof -
  have l: "loadGif_resolves env_two_passes two_frames canvas_controller
             = Inr (canvas_controller\<lparr>state := Resolved two_frames two_frames_extracted\<rparr>)"
    by (rule loadGif_resolves_two_frames) (simp_all add: env_two_passes_def)
  show ?thesis
    unfolding error_after_ready_def l
    by (simp add: js_bind_def renderNextFrame_unfold renderFrame_unfold Let_def
        canvas_controller_def initial_controller_def numFrames_def two_frames_def
        two_frames_extracted_def loadGif_resolves_three_frames)
qed

text \<open>\<open>ready_controller\<close> is the hook with its canvas after \<open>two_frames\<close> has been loaded
  and \<open>renderNextFrame()\<close> has been called once.\<close>

lemma ready_controller_reached:
  "js_bind (loadGif_resolves env_ok two_frames canvas_controller) renderNextFrame
     = Inr ready_controller"
proof -
  have l: "loadGif_resolves env_ok two_frames canvas_controller
             = Inr (canvas_controller\<lparr>state := Resolved two_frames two_frames_extracted\<rparr>)"
    by (rule loadGif_resolves_two_frames) (simp_all add: env_ok_def)
  have "putImageData (createCanvas 2 1) red_left 0 0 = red_left"
    unfolding putImageData_def red_left_def createCanvas_def iwidth_mk_image iheight_mk_image
    by (rule mk_image_cong) (simp add: pixel_mk_image)
  then show ?thesis
    unfolding l
    by (simp add: js_bind_def renderNextFrame_unfold renderFrame_unfold Let_def
        canvas_controller_def initial_controller_def ready_controller_def numFrames_def
        two_frames_def two_frames_extracted_def)
qed

section \<open>Calls while the state is loading or failed\<close>

text \<open>
  C8 (as the code has it). \<open>play\<close>, \<open>renderFrame\<close>, \<open>renderNextFrame\<close>,
  \<open>renderPreviousFrame\<close> and \<open>_iterateRenderLoop\<close> test the state of the render that made
  them. Made by a render whose state is loading or failed, each of them raises nothing
  and leaves the controller as it is, whenever it is called. \<open>pause\<close> has no such test;
  it asks for \<open>playing = false\<close>, and when \<open>playing\<close> is not set and no other value has been
  asked for, the render that follows leaves the controller as it was.
\<close>

theorem guarded_operations_not_ready:
  assumes "seen_state r = Loading \<or> seen_state r = Error m"
  shows "play_from r c = Inr c \<and> renderFrame_from r n c = Inr c
       \<and> renderNextFrame_from r c = Inr c \<and> renderPreviousFrame_from r c = Inr c
       \<and> iterateRenderLoop_from r c = Inr c
       \<and> (playing_set c = None \<and> \<not> playing c \<longrightarrow> js_bind (pause c) rerender = Inr c)"
  using assms
  by (auto simp: play_from_def renderFrame_from_def renderNextFrame_from_def
      renderPreviousFrame_from_def iterateRenderLoop_from_def pause_def setPlaying_def
      rerender_def js_bind_def)

theorem guarded_operations_not_ready_witness:
  "play initial_controller = Inr initial_controller
   \<and> renderFrame 0 initial_controller = Inr initial_controller
   \<and> renderNextFrame initial_controller = Inr initial_controller
   \<and> renderPreviousFrame initial_controller = Inr initial_controller
   \<and> js_bind (pause initial_controller) rerender = Inr initial_controller
   \<and> renderNextFrame_from (current_render initial_controller) ready_controller
       = Inr ready_controller"
proof -
  have a: "seen_state (current_render initial_controller) = Loading
           \<or> seen_state (current_render initial_controller) = Error m" for m
    by (simp add: current_render_def initial_controller_def)
  have p: "playing_set initial_controller = None \<and> \<not> playing initial_controller"
    by (simp add: initial_controller_def)
  show ?thesis
    using guarded_operations_not_ready [OF a, of initial_controller 0]
      guarded_operations_not_ready [OF a, of ready_controller 0] p
    by (simp add: play_def renderFrame_def renderNextFrame_def renderPreviousFrame_def)
qed

text \<open>
  C8 (as the spec has it) fails. In \<open>error_after_ready\<close> the state is the error state and
  the frame index is 1. \<open>restart\<close>, which has no guard, sets the index to 0; and
  \<open>renderNextFrame\<close> as the render of the resolved state has made it, kept by a caller,
  still sees that state and moves the index on.
\<close>

theorem calls_after_failure_counterexample:
  "map_sum id state error_after_ready = Inr (Error ''Could not extract frames from GIF.'')
   \<and> map_sum id frameIndex error_after_ready = Inr 1
   \<and> map_sum id frameIndex (js_bind error_after_ready restart) = Inr 0
   \<and> map_sum id frameIndex (js_bind error_after_ready (renderNextFrame_from kept_render)) = Inr 0"
  by (simp add: error_after_ready_value js_bind_def restart_def renderNextFrame_from_def
      renderFrame_from_def kept_render_def numFrames_def two_frames_def two_frames_extracted_def
      Let_def)

section \<open>Stepping forwards and backwards\<close>

lemma renderNextFrame_ready:
  assumes "state c = Resolved g fs" and "length fs = numFrames g" and "ctx c = Some d"
    and "0 \<le> frameIndex c" and "frameIndex c < int (numFrames g)"
  shows "renderNextFrame c =
           Inr (c\<lparr>ctx := Some (putImageData d
                    (imageData (fs ! nat (if frameIndex c + 1 \<ge> int (numFrames g) then 0
                                          else frameIndex c + 1))) 0 0),
                  frameIndex := (if frameIndex c + 1 \<ge> int (numFrames g) then 0
                                 else frameIndex c + 1)\<rparr>)"
proof -
  let ?n = "if frameIndex c + 1 \<ge> int (numFrames g) then 0 else frameIndex c + 1"
  have "0 \<le> ?n" and "?n < int (numFrames g)" using assms(4,5) by auto
  with assms
  have "renderFrame ?n c = Inr (c\<lparr>ctx := Some (putImageData d (imageData (fs ! nat ?n)) 0 0)\<rparr>)"
    by (intro renderFrame_in_range) auto
  then show ?thesis using assms
    by (simp add: renderNextFrame_unfold Let_def js_bind_def)
qed

lemma renderPreviousFrame_ready:
  assumes "state c = Resolved g fs" and "length fs = numFrames g" and "ctx c = Some d"
    and "0 \<le> frameIndex c" and "frameIndex c < int (numFrames g)"
  shows "renderPreviousFrame c =
           Inr (c\<lparr>ctx := Some (putImageData d
                    (imageData (fs ! nat (if frameIndex c - 1 < 0 then int (numFrames g) - 1
                                          else frameIndex c - 1))) 0 0),
                  frameIndex := (if frameIndex c - 1 < 0 then int (numFrames g) - 1
                                 else frameIndex c - 1)\<rparr>)"
proof -
  let ?n = "if frameIndex c - 1 < 0 then int (numFrames g) - 1 else frameIndex c - 1"
  have "0 \<le> ?n" and "?n < int (numFrames g)" using assms(4,5) by auto
  with assms
  have "renderFrame ?n c = Inr (c\<lparr>ctx := Some (putImageData d (imageData (fs ! nat ?n)) 0 0)\<rparr>)"
    by (intro renderFrame_in_range) auto
  then show ?thesis using assms
    by (simp add: renderPreviousFrame_unfold Let_def js_bind_def)
qed

lemma render_no_ctx:
  "ctx c = None \<Longrightarrow> renderNextFrame c = Inr c \<and> renderPreviousFrame c = Inr c"
  by (simp add: renderNextFrame_unfold renderPreviousFrame_unfold)

lemma renderNextFrame_index:
  assumes "state c = Resolved g fs" and "length fs = numFrames g" and "ctx c = Some d"
    and "0 \<le> frameIndex c" and "frameIndex c < int (numFrames g)"
  shows "\<exists>c' d'. renderNextFrame c = Inr c' \<and> state c' = state c \<and> ctx c' = Some d'
           \<and> frameIndex c' = (if frameIndex c + 1 \<ge> int (numFrames g) then 0 else frameIndex c + 1)
           \<and> playing c' = playing c \<and> playing_ref c' = playing_ref c \<and> timers c' = timers c"
  by (simp add: renderNextFrame_ready [OF assms])

lemma renderPreviousFrame_index:
  assumes "state c = Resolved g fs" and "length fs = numFrames g" and "ctx c = Some d"
    and "0 \<le> frameIndex c" and "frameIndex c < int (numFrames g)"
  shows "\<exists>c' d'. renderPreviousFrame c = Inr c' \<and> state c' = state c \<and> ctx c' = Some d'
           \<and> frameIndex c' = (if frameIndex c - 1 < 0 then int (numFrames g) - 1 else frameIndex c - 1)
           \<and> playing c' = playing c \<and> playing_ref c' = playing_ref c \<and> timers c' = timers c"
  by (simp add: renderPreviousFrame_ready [OF assms])

text \<open>
  C9 (as the code has it). In the resolved state, with the frames as \<open>extractFrames\<close> has
  returned them and the frame index in \<open>[0, numFrames())\<close>, \<open>renderNextFrame()\<close> followed
  by \<open>renderPreviousFrame()\<close> raises nothing and leaves the frame index where it was, and
  so does \<open>renderPreviousFrame()\<close> followed by \<open>renderNextFrame()\<close>; at the last frame
  and at frame 0 the index wraps around and back.
\<close>

theorem next_previous_inverse:
  assumes "state c = Resolved g fs" and "extractFrames e g = Inr (Some fs)"
    and "0 \<le> frameIndex c" and "frameIndex c < int (numFrames g)"
  shows "map_sum id frameIndex (js_bind (renderNextFrame c) renderPreviousFrame) = Inr (frameIndex c)
       \<and> map_sum id frameIndex (js_bind (renderPreviousFrame c) renderNextFrame) = Inr (frameIndex c)"
proof (cases "ctx c")
  case None
  then show ?thesis by (simp add: render_no_ctx js_bind_def)
next
  case (Some d)
  have len: "length fs = numFrames g" using assms(2) by (rule extractFrames_length)
  from renderNextFrame_index [OF assms(1) len Some assms(3,4)]
  obtain c1 d1 where c1: "renderNextFrame c = Inr c1" "state c1 = state c" "ctx c1 = Some d1"
    "frameIndex c1 = (if frameIndex c + 1 \<ge> int (numFrames g) then 0 else frameIndex c + 1)"
    by blast
  have r1: "0 \<le> frameIndex c1" "frameIndex c1 < int (numFrames g)"
    using c1(4) assms(3,4) by auto
  have s1: "state c1 = Resolved g fs" using c1(2) assms(1) by simp
  from renderPreviousFrame_index [OF s1 len c1(3) r1]
  obtain c2 where c2: "renderPreviousFrame c1 = Inr c2"
    "frameIndex c2 = (if frameIndex c1 - 1 < 0 then int (numFrames g) - 1 else frameIndex c1 - 1)"
    by auto
  have a: "frameIndex c2 = frameIndex c" using c2(2) c1(4) assms(3,4) by auto
  from renderPreviousFrame_index [OF assms(1) len Some assms(3,4)]
  obtain c3 d3 where c3: "renderPreviousFrame c = Inr c3" "state c3 = state c" "ctx c3 = Some d3"
    "frameIndex c3 = (if frameIndex c - 1 < 0 then int (numFrames g) - 1 else frameIndex c - 1)"
    by blast
  have r3: "0 \<le> frameIndex c3" "frameIndex c3 < int (numFrames g)"
    using c3(4) assms(3,4) by auto
  have s3: "state c3 = Resolved g fs" using c3(2) assms(1) by simp
  from renderNextFrame_index [OF s3 len c3(3) r3]
  obtain c4 where c4: "renderNextFrame c3 = Inr c4"
    "frameIndex c4 = (if frameIndex c3 + 1 \<ge> int (numFrames g) then 0 else frameIndex c3 + 1)"
    by auto
  have b: "frameIndex c4 = frameIndex c" using c4(2) c3(4) assms(3,4) by auto
  show ?thesis by (simp add: js_bind_def c1(1) c2(1) a c3(1) c4(1) b)
qed

theorem next_previous_inverse_witness:
  "map_sum id frameIndex (js_bind (renderNextFrame ready_controller) renderPreviousFrame) = Inr 0
   \<and> map_sum id frameIndex (js_bind (renderPreviousFrame ready_controller) renderNextFrame) = Inr 0"
proof -
  have s: "state ready_controller = Resolved two_frames two_frames_extracted"
    and i: "0 \<le> frameIndex ready_controller" "frameIndex ready_controller < int (numFrames two_frames)"
    and z: "frameIndex ready_controller = 0"
    by (simp_all add: ready_controller_def numFrames_def two_frames_def)
  have x: "extractFrames env_ok two_frames = Inr (Some two_frames_extracted)"
    by (rule extractFrames_two_frames) (simp_all add: env_ok_def)
  show ?thesis using next_previous_inverse [OF s x i] by (simp add: z)
qed

text \<open>
  C9 (as the spec has it) fails. The resolved state is reached with the frame index at
  -1, where nothing has been rendered yet: from there the two calls end at 1 or at 0.
  And for the GIF without frames, with the index at 0 after \<open>renderNextFrame()\<close>, they
  end at -1.
\<close>

theorem index_not_restored_counterexample:
  "loadGif_resolves env_ok two_frames canvas_controller = Inr ready_unrendered
   \<and> frameIndex ready_unrendered = - 1
   \<and> map_sum id frameIndex (js_bind (renderNextFrame ready_unrendered) renderPreviousFrame) = Inr 1
   \<and> map_sum id frameIndex (js_bind (renderPreviousFrame ready_unrendered) renderNextFrame) = Inr 0
   \<and> js_bind (loadGif_resolves env_ok no_frames canvas_controller) renderNextFrame
       = Inr ready_no_frames
   \<and> frameIndex ready_no_frames = 0
   \<and> map_sum id frameIndex (js_bind (renderNextFrame ready_no_frames) renderPreviousFrame)
       = Inr (- 1)"
proof -
  have l: "loadGif_resolves env_ok two_frames canvas_controller = Inr ready_unrendered"
    unfolding ready_unrendered_def
    by (rule loadGif_resolves_two_frames) (simp_all add: env_ok_def)
  have n: "loadGif_resolves env_ok no_frames canvas_controller
             = Inr (canvas_controller\<lparr>state := Resolved no_frames []\<rparr>)"
    by (simp add: loadGif_resolves_def extractFrames_no_frames numFrames_def no_frames_def
        env_ok_def)
  show ?thesis
    unfolding l n
    by (simp add: js_bind_def renderNextFrame_unfold renderPreviousFrame_unfold
        renderFrame_unfold Let_def ready_unrendered_def ready_no_frames_def
        canvas_controller_def initial_controller_def numFrames_def two_frames_def
        two_frames_extracted_def no_frames_def)
qed

section \<open>Playing and pausing\<close>

lemma play_ready:
  "state c = Resolved g fs \<Longrightarrow> \<not> playing c \<Longrightarrow> play c = Inr (c\<lparr>playing_set := Some True\<rparr>)"
  by (simp add: play_def play_from_def current_render_def setPlaying_def)

lemma rerender_starts:
  assumes "state c = Resolved g fs" and "length fs = numFrames g"
    and "0 \<le> frameIndex c" and "frameIndex c < int (numFrames g)"
    and "\<not> playing c" and "playing_set c = Some True"
  shows "rerender c =
           Inr (c\<lparr>playing := True, playing_set := None, playing_ref := True,
                  timers := timers c @ [(frame_delay (fs ! nat (frameIndex c)),
                                          current_render (c\<lparr>playing := True\<rparr>))]\<rparr>)"
  using assms
  by (simp add: rerender_def playing_effect_def iterateRenderLoop_from_def current_render_def)

lemma rerender_stops:
  "playing c \<Longrightarrow> playing_set c = Some False \<Longrightarrow>
   rerender c = Inr (c\<lparr>playing := False, playing_set := None, playing_ref := False\<rparr>)"
  by (simp add: rerender_def playing_effect_def)

lemma renderNextFrame_from_index:
  assumes "seen_state r = Resolved g fs" and "length fs = numFrames g" and "seen_ctx r"
    and "0 \<le> frameIndex c" and "frameIndex c < int (numFrames g)"
  shows "\<exists>c'. renderNextFrame_from r c = Inr c'
           \<and> frameIndex c' = (if frameIndex c + 1 \<ge> int (numFrames g) then 0 else frameIndex c + 1)
           \<and> state c' = state c \<and> playing c' = playing c \<and> playing_set c' = playing_set c
           \<and> playing_ref c' = playing_ref c \<and> timers c' = timers c"
proof -
  let ?n = "if frameIndex c + 1 \<ge> int (numFrames g) then 0 else frameIndex c + 1"
  have "0 \<le> ?n" and "?n < int (numFrames g)" using assms(4,5) by auto
  then have "nat ?n < length fs" using assms(2) by auto
  then show ?thesis
    using assms \<open>0 \<le> ?n\<close> \<open>?n < int (numFrames g)\<close>
    by (cases "ctx c")
       (auto simp: renderNextFrame_from_def renderFrame_from_def Let_def js_bind_def)
qed

lemma iterateRenderLoop_stopped: "\<not> playing_ref c \<Longrightarrow> iterateRenderLoop_from r c = Inr c"
  by (simp add: iterateRenderLoop_from_def split: gif_state.splits)

lemma tick_idle: "timers c = [] \<Longrightarrow> tick c = Inr c"
  by (simp add: tick_def)

text \<open>
  C5 (as the code has it). On a resolved controller with the frames as \<open>extractFrames\<close>
  has returned them, a canvas to draw on, the frame index in \<open>[0, numFrames())\<close>, not
  playing, and neither a timer nor a new value of \<open>playing\<close> pending: \<open>play()\<close> and
  \<open>pause()\<close> in one handler, before the next render, arm no timer and leave the controller
  as it was. With a render after each of them, one timer is pending after \<open>pause()\<close> and
  the frame index is where it was. When that timer fires, the callback renders the next
  frame first, so the index moves on by one (around to 0 after the last frame); only then
  it sees that \<open>_playing\<close> is off and arms no further timer. After that nothing is pending
  and the index moves no more.
\<close>

theorem play_pause_one_more_frame:
  assumes "state c = Resolved g fs" and "extractFrames e g = Inr (Some fs)" and "ctx c = Some d"
    and "0 \<le> frameIndex c" and "frameIndex c < int (numFrames g)"
    and "\<not> playing c" and "playing_set c = None" and "timers c = []"
  shows "js_bind (js_bind (play c) pause) rerender = Inr c
       \<and> (\<exists>c2 c3. js_bind (js_bind (js_bind (play c) rerender) pause) rerender = Inr c2
             \<and> length (timers c2) = 1 \<and> frameIndex c2 = frameIndex c
             \<and> \<not> playing c2 \<and> \<not> playing_ref c2
             \<and> tick c2 = Inr c3
             \<and> frameIndex c3 = (if frameIndex c + 1 \<ge> int (numFrames g) then 0
                                else frameIndex c + 1)
             \<and> timers c3 = [] \<and> tick c3 = Inr c3)"
proof
  have "c\<lparr>playing_set := None\<rparr> = c" using assms(7) by (cases c) simp
  then show "js_bind (js_bind (play c) pause) rerender = Inr c"
    using assms(1,6)
    by (simp add: play_ready js_bind_def pause_def setPlaying_def rerender_def)
next
  have len: "length fs = numFrames g" using assms(2) by (rule extractFrames_length)
  let ?r = "current_render (c\<lparr>playing_set := Some True, playing := True\<rparr>)"
  let ?t = "(frame_delay (fs ! nat (frameIndex c)), ?r)"
  let ?c1 = "c\<lparr>playing_set := None, playing := True, playing_ref := True, timers := [?t]\<rparr>"
  let ?c2 = "c\<lparr>playing_set := None, playing := False, playing_ref := False, timers := [?t]\<rparr>"
  have p1: "js_bind (play c) rerender = Inr ?c1"
    using assms(1,4,5,6,8) len
    by (simp add: play_ready js_bind_def rerender_starts[where g = g and fs = fs])
  have p2: "js_bind (pause ?c1) rerender = Inr ?c2"
    by (simp add: pause_def setPlaying_def js_bind_def rerender_stops)
  have b: "js_bind (Inr ?c1) pause = pause ?c1" by (simp add: js_bind_def)
  have seq: "js_bind (js_bind (js_bind (play c) rerender) pause) rerender = Inr ?c2"
    by (simp only: p1 b p2)
  have r: "seen_state ?r = Resolved g fs" "seen_ctx ?r"
    using assms(1,3) by (simp_all add: current_render_def)
  let ?c2' = "?c2\<lparr>timers := []\<rparr>"
  have "0 \<le> frameIndex ?c2'" "frameIndex ?c2' < int (numFrames g)" using assms(4,5) by auto
  from renderNextFrame_from_index [OF r(1) len r(2) this]
  obtain c3 where c3: "renderNextFrame_from ?r ?c2' = Inr c3"
    "frameIndex c3 = (if frameIndex c + 1 \<ge> int (numFrames g) then 0 else frameIndex c + 1)"
    "playing_ref c3 = False" "timers c3 = []"
    by auto
  have t: "tick ?c2 = Inr c3"
    using c3(1,3) by (simp add: tick_def js_bind_def iterateRenderLoop_stopped)
  have "tick c3 = Inr c3" using c3(4) by (rule tick_idle)
  with seq t c3 show "\<exists>c2 c3. js_bind (js_bind (js_bind (play c) rerender) pause) rerender = Inr c2
             \<and> length (timers c2) = 1 \<and> frameIndex c2 = frameIndex c
             \<and> \<not> playing c2 \<and> \<not> playing_ref c2
             \<and> tick c2 = Inr c3
             \<and> frameIndex c3 = (if frameIndex c + 1 \<ge> int (numFrames g) then 0
                                else frameIndex c + 1)
             \<and> timers c3 = [] \<and> tick c3 = Inr c3"
    by (intro exI[of _ ?c2] exI[of _ c3]) simp
qed

theorem play_pause_one_more_frame_witness:
  "js_bind (js_bind (play ready_controller) pause) rerender = Inr ready_controller
   \<and> (\<exists>c2 c3. js_bind (js_bind (js_bind (play ready_controller) rerender) pause) rerender = Inr c2
         \<and> length (timers c2) = 1 \<and> frameIndex c2 = 0
         \<and> tick c2 = Inr c3 \<and> frameIndex c3 = 1 \<and> timers c3 = [])"
proof -
  have s: "state ready_controller = Resolved two_frames two_frames_extracted"
    and d: "ctx ready_controller = Some red_left"
    and i: "0 \<le> frameIndex ready_controller" "frameIndex ready_controller < int (numFrames two_frames)"
    and p: "\<not> playing ready_controller" "playing_set ready_controller = None"
    and t: "timers ready_controller = []"
    and z: "frameIndex ready_controller = 0" and n: "numFrames two_frames = 2"
    by (simp_all add: ready_controller_def numFrames_def two_frames_def)
  have x: "extractFrames env_ok two_frames = Inr (Some two_frames_extracted)"
    by (rule extractFrames_two_frames) (simp_all add: env_ok_def)
  from play_pause_one_more_frame [OF s x d i p t]
  show ?thesis unfolding z n by auto
qed

text \<open>
  C5 (as the spec has it) fails: on the controller that shows frame 0 of two, after
  \<open>play()\<close> and \<open>pause()\<close>, each followed by its render, the frame index is still 0, and
  the tick that fires next moves it to 1.
\<close>

theorem tick_after_pause_counterexample:
  "map_sum id frameIndex
     (js_bind (js_bind (js_bind (play ready_controller) rerender) pause) rerender) = Inr 0
   \<and> map_sum id frameIndex
       (js_bind (js_bind (js_bind (js_bind (play ready_controller) rerender) pause) rerender) tick)
       = Inr 1"
  by (simp add: play_def play_from_def pause_def setPlaying_def rerender_def playing_effect_def
      iterateRenderLoop_from_def tick_def renderNextFrame_from_def renderFrame_from_def
      current_render_def js_bind_def Let_def ready_controller_def two_frames_extracted_def
      numFrames_def two_frames_def)

section \<open>Loading\<close>

text \<open>
  C2 (as the code has it). When the parser reports no frame, the load ends in the
  resolved state with an empty array of frames, provided the canvas of \<open>extractFrames\<close>
  gives its 2D context; it ends in the error state, with the one message the hook has, only
  when that context is missing.
\<close>

theorem loadGif_resolves_no_frames:
  assumes "numFrames g = 0"
  shows "loadGif_resolves e g c =
           Inr (c\<lparr>state := (if ctx_available e then Resolved g []
                              else Error ''Could not extract frames from GIF.'')\<rparr>)"
  using assms by (simp add: loadGif_resolves_def extractFrames_no_frames)

theorem loadGif_resolves_no_frames_witness:
  "loadGif_resolves env_ok no_frames initial_controller
     = Inr (initial_controller\<lparr>state := Resolved no_frames []\<rparr>)
   \<and> loadGif_resolves env_no_ctx no_frames initial_controller
     = Inr (initial_controller\<lparr>state := Error ''Could not extract frames from GIF.''\<rparr>)"
proof -
  have n: "numFrames no_frames = 0" by (simp add: numFrames_def no_frames_def)
  show ?thesis
    using loadGif_resolves_no_frames [OF n, of env_ok initial_controller]
      loadGif_resolves_no_frames [OF n, of env_no_ctx initial_controller]
    by (simp add: env_ok_def env_no_ctx_def)
qed

text \<open>
  C2 (as the spec has it) fails: for the GIF without frames, with every context
  available, the load ends in the resolved state, not in an error.
\<close>

theorem no_frames_resolves_counterexample:
  "numFrames no_frames = 0
   \<and> map_sum id state (loadGif_resolves env_ok no_frames initial_controller)
       = Inr (Resolved no_frames [])"
  by (simp add: loadGif_resolves_def extractFrames_no_frames numFrames_def no_frames_def
      env_ok_def)

section \<open>A change of the URL while a load is pending\<close>

text \<open>A load that does not throw ends in a state that depends on the reader and the
  environment only.\<close>

lemma loadGif_settles_state:
  assumes "loadGif_resolves e g initial_controller = Inr c0"
  shows "state (loadGif_settles e g c) = state c0"
  using assms
  by (auto simp: loadGif_settles_def loadGif_resolves_def split: sum.splits option.splits)

text \<open>
  C7 (as the code has it). Nothing ties a load to the URL it was started for: when a
  load gets its bytes and \<open>extractFrames\<close> returns, it sets the state, whatever the URL is
  by then; a load in which \<open>extractFrames\<close> throws sets nothing. After the URL has changed
  from \<open>urlA\<close> to \<open>urlB\<close> with the load of \<open>urlA\<close> pending, the state is what the loads
  have made of it in the order in which they end. So, unless it throws, the load of
  \<open>urlA\<close> leaves its own outcome as the state when it ends, whether the load of \<open>urlB\<close> has
  ended before it or is still pending; the state is the outcome of \<open>urlB\<close> only if the
  load of \<open>urlB\<close> ends last.
\<close>

theorem last_resolved_load_wins:
  assumes "urlA \<noteq> urlB"
  shows "map_sum id (\<lambda>h. state (ctrl h))
           (run e net [UrlChanges urlB, DecodeResolves 1, DecodeResolves 0] (mount urlA))
         = Inr (state (loadGif_settles e (net urlA)
                         (loadGif_settles e (net urlB) initial_controller)))
       \<and> map_sum id (\<lambda>h. state (ctrl h))
           (run e net [UrlChanges urlB, DecodeResolves 0] (mount urlA))
         = Inr (state (loadGif_settles e (net urlA) initial_controller))
       \<and> map_sum id (\<lambda>h. state (ctrl h))
           (run e net [UrlChanges urlB, DecodeResolves 0, DecodeResolves 0] (mount urlA))
         = Inr (state (loadGif_settles e (net urlB)
                         (loadGif_settles e (net urlA) initial_controller)))
       \<and> ((\<forall>err. extractFrames e (net urlA) \<noteq> Inl err) \<longrightarrow>
            map_sum id (\<lambda>h. state (ctrl h))
              (run e net [UrlChanges urlB, DecodeResolves 1, DecodeResolves 0] (mount urlA))
            = map_sum id state (loadGif_resolves e (net urlA) initial_controller)
          \<and> map_sum id (\<lambda>h. state (ctrl h))
              (run e net [UrlChanges urlB, DecodeResolves 0] (mount urlA))
            = map_sum id state (loadGif_resolves e (net urlA) initial_controller))
       \<and> ((\<forall>err. extractFrames e (net urlB) \<noteq> Inl err) \<longrightarrow>
            map_sum id (\<lambda>h. state (ctrl h))
              (run e net [UrlChanges urlB, DecodeResolves 0, DecodeResolves 0] (mount urlA))
            = map_sum id state (loadGif_resolves e (net urlB) initial_controller))"
proof -
  have 1: "map_sum id (\<lambda>h. state (ctrl h))
           (run e net [UrlChanges urlB, DecodeResolves 1, DecodeResolves 0] (mount urlA))
         = Inr (state (loadGif_settles e (net urlA)
                         (loadGif_settles e (net urlB) initial_controller)))"
    using assms by (simp add: mount_def step_def js_bind_def)
  have 2: "map_sum id (\<lambda>h. state (ctrl h))
           (run e net [UrlChanges urlB, DecodeResolves 0] (mount urlA))
         = Inr (state (loadGif_settles e (net urlA) initial_controller))"
    using assms by (simp add: mount_def step_def js_bind_def)
  have 3: "map_sum id (\<lambda>h. state (ctrl h))
           (run e net [UrlChanges urlB, DecodeResolves 0, DecodeResolves 0] (mount urlA))
         = Inr (state (loadGif_settles e (net urlB)
                         (loadGif_settles e (net urlA) initial_controller)))"
    using assms by (simp add: mount_def step_def js_bind_def)
  have own: "Inr (state (loadGif_settles e g c))
               = map_sum id state (loadGif_resolves e g initial_controller)"
    if "\<forall>err. extractFrames e g \<noteq> Inl err" for g c
  proof -
    have "\<exists>c0. loadGif_resolves e g initial_controller = Inr c0"
    proof (cases "extractFrames e g")
      case (Inl err)
      with that show ?thesis by simp
    next
      case (Inr r)
      then show ?thesis by (cases r) (simp_all add: loadGif_resolves_def)
    qed
    then obtain c0 where c0: "loadGif_resolves e g initial_controller = Inr c0" by blast
    then show ?thesis by (simp add: loadGif_settles_state[OF c0])
  qed
  show ?thesis
    unfolding 1 2 3 using own by simp
qed

lemma loadGif_settles_two_frames:
  assumes "ctx_available e" and "temp_ctx_available e 0" and "temp_ctx_available e 1"
  shows "loadGif_settles e two_frames c = c\<lparr>state := Resolved two_frames two_frames_extracted\<rparr>"
  by (simp add: loadGif_settles_def loadGif_resolves_two_frames[OF assms])

theorem last_resolved_load_wins_witness:
  "map_sum id (\<lambda>h. state (ctrl h))
     (run env_ok example_net [UrlChanges ''b.gif'', DecodeResolves 1, DecodeResolves 0]
        (mount ''a.gif''))
   = Inr (Resolved two_frames two_frames_extracted)"
proof -
  have ne: "''a.gif'' \<noteq> ''b.gif''" by simp
  have a: "example_net ''a.gif'' = two_frames" by (simp add: example_net_def)
  have s: "loadGif_settles env_ok two_frames c
             = c\<lparr>state := Resolved two_frames two_frames_extracted\<rparr>" for c
    by (rule loadGif_settles_two_frames) (simp_all add: env_ok_def)
  show ?thesis
    using last_resolved_load_wins [OF ne, of env_ok example_net]
    by (simp add: a s)
qed

text \<open>
  C7 (as the spec has it) fails: with \<open>a.gif\<close> replaced by \<open>b.gif\<close> while loading, and the
  load of \<open>b.gif\<close> resolving before that of \<open>a.gif\<close>, the hook ends with the URL \<open>b.gif\<close> and
  the frames of \<open>a.gif\<close>.
\<close>

theorem stale_load_overwrites_counterexample:
  "map_sum id url_and_state
     (run env_ok example_net [UrlChanges ''b.gif'', DecodeResolves 1, DecodeResolves 0]
        (mount ''a.gif''))
   = Inr (''b.gif'', Resolved (example_net ''a.gif'') two_frames_extracted)
   \<and> example_net ''a.gif'' \<noteq> example_net ''b.gif''"
proof -
  have ne: "two_frames \<noteq> offset_restore"
  proof
    assume "two_frames = offset_restore"
    then have "numFrames two_frames = numFrames offset_restore" by simp
    then show False by (simp add: numFrames_def two_frames_def offset_restore_def)
  qed
  have a: "loadGif_settles env_ok two_frames c
             = c\<lparr>state := Resolved two_frames two_frames_extracted\<rparr>" for c
    by (rule loadGif_settles_two_frames) (simp_all add: env_ok_def)
  show ?thesis
    by (simp add: mount_def step_def js_bind_def example_net_def a ne url_and_state_def)
qed

end
